theory Spec2Isabelle
  imports Complex_Main "HOL-Library.AList" "HOL-Library.Char_ord" "HOL-Library.List_Lexorder"
begin

section \<open>Core utilities (packages/core: constants and utils)\<close>

text \<open>
  Sizes, indices and timestamps are JavaScript numbers holding integers (byte counts,
  chunk indices parsed with \<open>parseInt\<close>, milliseconds); they are modelled as \<open>int\<close>, the
  value of the double. Comparison, \<open>Math.min\<close>, \<open>Math.max\<close> and \<open>%\<close> are exact on
  doubles; the division of \<open>calculateTotalChunks\<close> rounds, and is modelled with its
  rounding.
\<close>

definition DEFAULT_CHUNK_SIZE :: int where
  "DEFAULT_CHUNK_SIZE = 1024 * 1024"

definition MIN_CHUNK_SIZE :: int where
  "MIN_CHUNK_SIZE = 256 * 1024"

definition MAX_CHUNK_SIZE :: int where
  "MAX_CHUNK_SIZE = 100 * 1024 * 1024"

text \<open>\<open>Number.MAX_SAFE_INTEGER\<close> of JavaScript.\<close>

definition MAX_SAFE_INTEGER :: int where
  "MAX_SAFE_INTEGER = 2 ^ 53 - 1"

definition DEFAULT_RETRY_ATTEMPTS :: int where
  "DEFAULT_RETRY_ATTEMPTS = 3"

definition DEFAULT_RETRY_DELAY :: int where
  "DEFAULT_RETRY_DELAY = 1000"

text \<open>The error codes of \<open>errors.ts\<close>.\<close>

datatype TorrinErrorCode =
    UPLOAD_NOT_FOUND
  | UPLOAD_ALREADY_COMPLETED
  | UPLOAD_CANCELED
  | CHUNK_OUT_OF_RANGE
  | CHUNK_SIZE_MISMATCH
  | CHUNK_HASH_MISMATCH
  | CHUNK_ALREADY_UPLOADED
  | MISSING_CHUNKS
  | FILE_HASH_MISMATCH
  | STORAGE_ERROR
  | INVALID_REQUEST
  | NETWORK_ERROR
  | TIMEOUT_ERROR
  | INTERNAL_ERROR

text \<open>
  The \<open>details\<close> payload of a \<open>TorrinError\<close>: the shapes the service and the drivers build.
  Message strings are not modelled.
\<close>

datatype ErrorDetails =
    NoDetails
  | SizeDetails int int
  | IndexDetails int int
  | MissingDetails "int list"

text \<open>
  A thrown value: a \<open>TorrinError\<close> with its code and details, or a plain \<open>Error\<close>
  (\<open>getExpectedChunkSize\<close> throws one).
\<close>

datatype error =
    TorrinError TorrinErrorCode ErrorDetails
  | PlainError

text \<open>
  The \<open>/\<close> of JavaScript is the division of IEEE 754 doubles: the exact quotient rounded
  to the nearest number with a significand of 53 bits, a tie going to the even
  significand. The operands are integers that are doubles themselves, as every integer
  of magnitude up to \<open>2^53\<close> is. For positive integers \<open>a\<close> and \<open>b\<close>, \<open>double_exponent a b\<close> is the \<open>e\<close>
  with \<open>2^e \<le> a / b < 2^(e + 1)\<close>, found from the lengths in bits of \<open>a\<close> and \<open>b\<close>; the
  quotient scaled by \<open>2^(52 - e)\<close> lies in \<open>[2^52, 2^53)\<close> and is rounded to an integer,
  which is scaled back. Exponents outside the range of doubles (overflow to infinity,
  subnormal results) are not modelled, nor is a zero divisor, which gives an infinity
  or NaN in the source; no session has a zero chunk size.
\<close>

function bit_length :: "int \<Rightarrow> nat" where
  "bit_length a = (if a \<le> 0 then 0 else Suc (bit_length (a div 2)))"
  by pat_completeness auto
termination
  by (relation "measure nat") auto

declare bit_length.simps [simp del]

definition double_exponent :: "int \<Rightarrow> int \<Rightarrow> int" where
  "double_exponent a b =
     (let d = int (bit_length a) - int (bit_length b)
      in if (if 0 \<le> d then b * 2 ^ nat d \<le> a else b \<le> a * 2 ^ nat (- d)) then d else d - 1)"

text \<open>The integer nearest to \<open>n / d\<close> for \<open>d > 0\<close>, a tie going to the even one.\<close>

definition round_half_even :: "int \<Rightarrow> int \<Rightarrow> int" where
  "round_half_even n d =
     (let f = n div d; r = n mod d
      in if 2 * r < d then f
         else if 2 * r > d then f + 1
         else if even f then f else f + 1)"

definition double_quotient :: "int \<Rightarrow> int \<Rightarrow> real" where
  "double_quotient a b =
     (let e = double_exponent a b
      in if e \<le> 52
         then real_of_int (round_half_even (a * 2 ^ nat (52 - e)) b) / 2 ^ nat (52 - e)
         else real_of_int (round_half_even a (b * 2 ^ nat (e - 52)) * 2 ^ nat (e - 52)))"

definition js_divide :: "int \<Rightarrow> int \<Rightarrow> real" where
  "js_divide a b =
     (if a = 0 \<or> b = 0 then 0
      else real_of_int (sgn a * sgn b) * double_quotient \<bar>a\<bar> \<bar>b\<bar>)"

text \<open>\<open>Math.ceil(fileSize / chunkSize)\<close>; \<open>Math.ceil\<close> is exact.\<close>

definition calculateTotalChunks :: "int \<Rightarrow> int \<Rightarrow> int" where
  "calculateTotalChunks fileSize chunkSize = \<lceil>js_divide fileSize chunkSize\<rceil>"

definition normalizeChunkSize :: "int option \<Rightarrow> int \<Rightarrow> int" where
  "normalizeChunkSize desired fileSize =
     (let size0 = (case desired of None \<Rightarrow> DEFAULT_CHUNK_SIZE | Some d \<Rightarrow> d);
          size1 = max MIN_CHUNK_SIZE (min MAX_CHUNK_SIZE size0)
      in if size1 > fileSize then fileSize else size1)"

text \<open>
  The loop of \<open>getMissingChunks\<close>: \<open>i\<close> runs from 0 while \<open>i < totalChunks\<close>, pushing
  every index that the set built from \<open>receivedChunks\<close> does not hold.
\<close>

function getMissingChunks_loop :: "int \<Rightarrow> int list \<Rightarrow> int \<Rightarrow> int list \<Rightarrow> int list" where
  "getMissingChunks_loop totalChunks receivedChunks i missing =
     (if i < totalChunks
      then getMissingChunks_loop totalChunks receivedChunks (i + 1)
             (if i \<notin> set receivedChunks then missing @ [i] else missing)
      else missing)"
  by pat_completeness auto
termination
  by (relation "measure (\<lambda>(totalChunks, receivedChunks, i, missing). nat (totalChunks - i))") auto

declare getMissingChunks_loop.simps [simp del]

definition getMissingChunks :: "int \<Rightarrow> int list \<Rightarrow> int list" where
  "getMissingChunks totalChunks receivedChunks =
     getMissingChunks_loop totalChunks receivedChunks 0 []"

text \<open>
  JavaScript's \<open>%\<close> on integers: the result has the sign of the dividend. (A zero divisor
  gives NaN in the source; no session has a zero chunk size.)
\<close>

definition js_rem :: "int \<Rightarrow> int \<Rightarrow> int" where
  "js_rem a b = sgn a * (\<bar>a\<bar> mod \<bar>b\<bar>)"

definition getExpectedChunkSize :: "int \<Rightarrow> int \<Rightarrow> int \<Rightarrow> int \<Rightarrow> error + int" where
  "getExpectedChunkSize chunkIndex totalChunks fileSize chunkSize =
     (if chunkIndex < 0 \<or> chunkIndex \<ge> totalChunks then Inl PlainError
      else if chunkIndex = totalChunks - 1
      then (let remainder = js_rem fileSize chunkSize
            in Inr (if remainder = 0 then chunkSize else remainder))
      else Inr chunkSize)"

section \<open>Sessions (packages/core: types)\<close>

datatype UploadStatus = pending | in_progress | completed | failed | canceled

text \<open>Dates are milliseconds since the epoch; an optional field is an \<open>option\<close>.\<close>

record TorrinUploadSession =
  uploadId :: string
  fileName :: "string option"
  fileSize :: int
  mimeType :: "string option"
  chunkSize :: int
  totalChunks :: int
  metadata :: "(string \<times> string) list option"
  status :: UploadStatus
  createdAt :: int
  updatedAt :: int
  expiresAt :: "int option"

record TorrinSessionInitInput =
  init_fileName :: "string option"
  init_fileSize :: int
  init_mimeType :: "string option"
  init_metadata :: "(string \<times> string) list option"
  desiredChunkSize :: "int option"

record TorrinUploadStatus =
  st_uploadId :: string
  st_status :: UploadStatus
  st_fileName :: "string option"
  st_fileSize :: int
  st_chunkSize :: int
  st_totalChunks :: int
  st_receivedChunks :: "int list"
  st_missingChunks :: "int list"

datatype TorrinStorageLocation = LocalLocation string | S3Location string string

record TorrinCompleteResult =
  res_uploadId :: string
  res_status :: UploadStatus
  res_fileName :: "string option"
  res_fileSize :: int
  res_location :: TorrinStorageLocation
  res_metadata :: "(string \<times> string) list option"

section \<open>The in-memory store (packages/server: memory-store.ts)\<close>

text \<open>
  \<open>StoredSession\<close> holds the session and a JavaScript \<open>Set<number>\<close>, kept here as the
  list of its members in insertion order. The \<open>Map<string, StoredSession>\<close> of the store
  is an association list in insertion order: \<open>Map.set\<close> on a present key replaces the
  value in place, on a new key appends (\<open>AList.update\<close>); \<open>Map.delete\<close> removes the key.
\<close>

record StoredSession =
  session :: TorrinUploadSession
  receivedChunks :: "int list"

type_synonym sessions = "(string \<times> StoredSession) list"

definition Set_add :: "int \<Rightarrow> int list \<Rightarrow> int list" where
  "Set_add x xs = (if x \<in> set xs then xs else xs @ [x])"

text \<open>
  \<open>createSession\<close>: the result of \<open>generateUploadId()\<close> (a timestamp and random digits)
  and of \<open>new Date()\<close> are parameters. \<open>ttlMs ? \<dots> : undefined\<close> takes the first branch
  for a defined, nonzero \<open>ttlMs\<close>.
\<close>

definition createSession ::
  "string \<Rightarrow> int \<Rightarrow> TorrinSessionInitInput \<Rightarrow> int \<Rightarrow> int option \<Rightarrow> sessions
     \<Rightarrow> TorrinUploadSession \<times> sessions" where
  "createSession newId now init cs ttlMs ses =
     (let s = \<lparr> uploadId = newId,
                 fileName = init_fileName init,
                 fileSize = init_fileSize init,
                 mimeType = init_mimeType init,
                 chunkSize = cs,
                 totalChunks = calculateTotalChunks (init_fileSize init) cs,
                 metadata = init_metadata init,
                 status = pending,
                 createdAt = now,
                 updatedAt = now,
                 expiresAt = (case ttlMs of
                                None \<Rightarrow> None
                              | Some t \<Rightarrow> if t \<noteq> 0 then Some (now + t) else None) \<rparr>
      in (s, AList.update newId \<lparr> session = s, receivedChunks = [] \<rparr> ses))"

definition getSession :: "sessions \<Rightarrow> string \<Rightarrow> int \<Rightarrow> TorrinUploadSession option" where
  "getSession ses uid now =
     (case map_of ses uid of
        None \<Rightarrow> None
      | Some stored \<Rightarrow>
          (case expiresAt (session stored) of
             Some e \<Rightarrow> if e < now then None else Some (session stored)
           | None \<Rightarrow> Some (session stored)))"

text \<open>
  \<open>updateSession\<close>: the patch (a \<open>Partial<TorrinUploadSession>\<close>) is the function that
  overwrites the fields it carries; \<open>updatedAt\<close> is written after it.
\<close>

definition updateSession ::
  "sessions \<Rightarrow> string \<Rightarrow> (TorrinUploadSession \<Rightarrow> TorrinUploadSession) \<Rightarrow> int
     \<Rightarrow> error + (TorrinUploadSession \<times> sessions)" where
  "updateSession ses uid patch now =
     (case map_of ses uid of
        None \<Rightarrow> Inl (TorrinError UPLOAD_NOT_FOUND NoDetails)
      | Some stored \<Rightarrow>
          (let s' = (patch (session stored)) \<lparr> updatedAt := now \<rparr>
           in Inr (s', AList.update uid (stored \<lparr> session := s' \<rparr>) ses)))"

definition markChunkReceived :: "sessions \<Rightarrow> string \<Rightarrow> int \<Rightarrow> int \<Rightarrow> error + sessions" where
  "markChunkReceived ses uid chunkIndex now =
     (case map_of ses uid of
        None \<Rightarrow> Inl (TorrinError UPLOAD_NOT_FOUND NoDetails)
      | Some stored \<Rightarrow>
          Inr (AList.update uid
                 \<lparr> session = (session stored) \<lparr> updatedAt := now \<rparr>,
                   receivedChunks = Set_add chunkIndex (receivedChunks stored) \<rparr> ses))"

text \<open>\<open>Array.from(set).sort((a, b) => a - b)\<close>: ascending numeric order.\<close>

definition listReceivedChunks :: "sessions \<Rightarrow> string \<Rightarrow> error + int list" where
  "listReceivedChunks ses uid =
     (case map_of ses uid of
        None \<Rightarrow> Inl (TorrinError UPLOAD_NOT_FOUND NoDetails)
      | Some stored \<Rightarrow> Inr (sort (receivedChunks stored)))"

definition deleteSession :: "sessions \<Rightarrow> string \<Rightarrow> sessions" where
  "deleteSession ses uid = AList.delete uid ses"

definition isExpired :: "int \<Rightarrow> StoredSession \<Rightarrow> bool" where
  "isExpired now stored =
     (case expiresAt (session stored) of None \<Rightarrow> False | Some e \<Rightarrow> e < now)"

definition listExpiredSessions :: "sessions \<Rightarrow> int \<Rightarrow> TorrinUploadSession list" where
  "listExpiredSessions ses now = map session (filter (isExpired now) (map snd ses))"

definition listAllSessions :: "sessions \<Rightarrow> TorrinUploadSession list" where
  "listAllSessions ses = map (\<lambda>s. session s) (map snd ses)"

section \<open>The storage driver interface (packages/server: storage-driver.ts)\<close>

text \<open>
  A driver is any implementation of the four operations. Its own state (a file system,
  a multipart upload) has type \<open>'d\<close>; each operation returns the thrown error, if any,
  and the state it leaves. A chunk body (the \<open>Readable\<close> stream) is its bytes.
\<close>

type_synonym bytes = string

record 'd TorrinStorageDriver =
  drv_initUpload :: "TorrinUploadSession \<Rightarrow> 'd \<Rightarrow> error option \<times> 'd"
  drv_writeChunk ::
    "TorrinUploadSession \<Rightarrow> int \<Rightarrow> bytes \<Rightarrow> int \<Rightarrow> string option \<Rightarrow> 'd \<Rightarrow> error option \<times> 'd"
  drv_finalizeUpload :: "TorrinUploadSession \<Rightarrow> 'd \<Rightarrow> (error + TorrinStorageLocation) \<times> 'd"
  drv_abortUpload :: "TorrinUploadSession \<Rightarrow> 'd \<Rightarrow> error option \<times> 'd"

section \<open>The upload service (packages/server: service.ts)\<close>

text \<open>
  The service over the in-memory store. The state it works on is the pair of the store's
  sessions and the driver's state; every operation returns its result, or the error it
  throws, with the state it leaves. Each \<open>new Date()\<close> read by a store call is a
  parameter of the operation that makes the call. An operation runs from its first
  store call to its last without another operation in between; the \<open>hash\<close> argument
  of \<open>completeUpload\<close>, which the source never reads, is left out.
\<close>

record 'd TorrinService =
  storage :: "'d TorrinStorageDriver"
  defaultChunkSize :: int
  maxChunkSize :: int
  uploadTtlMs :: int

definition DEFAULT_UPLOAD_TTL_MS :: int where
  "DEFAULT_UPLOAD_TTL_MS = 24 * 60 * 60 * 1000"

definition newTorrinService ::
  "'d TorrinStorageDriver \<Rightarrow> int option \<Rightarrow> int option \<Rightarrow> int option \<Rightarrow> 'd TorrinService" where
  "newTorrinService drv dcs mcs ttl =
     \<lparr> storage = drv,
       defaultChunkSize = (case dcs of None \<Rightarrow> DEFAULT_CHUNK_SIZE | Some x \<Rightarrow> x),
       maxChunkSize = (case mcs of None \<Rightarrow> MAX_CHUNK_SIZE | Some x \<Rightarrow> x),
       uploadTtlMs = (case ttl of None \<Rightarrow> DEFAULT_UPLOAD_TTL_MS | Some x \<Rightarrow> x) \<rparr>"

record HandleChunkInput =
  chunk_uploadId :: string
  chunk_index :: int
  chunk_size :: int
  chunk_hash :: "string option"
  chunk_stream :: bytes

definition getSessionOrThrow :: "sessions \<Rightarrow> string \<Rightarrow> int \<Rightarrow> error + TorrinUploadSession" where
  "getSessionOrThrow ses uid now =
     (case getSession ses uid now of
        None \<Rightarrow> Inl (TorrinError UPLOAD_NOT_FOUND NoDetails)
      | Some s \<Rightarrow> Inr s)"

definition validateSessionForChunk :: "TorrinUploadSession \<Rightarrow> error option" where
  "validateSessionForChunk s =
     (if status s = completed then Some (TorrinError UPLOAD_ALREADY_COMPLETED NoDetails)
      else if status s = canceled then Some (TorrinError UPLOAD_CANCELED NoDetails)
      else None)"

definition validateChunkIndex :: "int \<Rightarrow> int \<Rightarrow> error option" where
  "validateChunkIndex idx n =
     (if idx < 0 \<or> idx \<ge> n
      then Some (TorrinError CHUNK_OUT_OF_RANGE (IndexDetails idx n))
      else None)"

definition initUpload ::
  "'d TorrinService \<Rightarrow> TorrinSessionInitInput \<Rightarrow> string \<Rightarrow> int \<Rightarrow> sessions \<times> 'd
     \<Rightarrow> (error + TorrinUploadSession) \<times> sessions \<times> 'd" where
  "initUpload svc input newId now w =
     (case w of (ses, d) \<Rightarrow>
        if init_fileSize input \<le> 0 then (Inl (TorrinError INVALID_REQUEST NoDetails), ses, d)
        else
          (let cs = normalizeChunkSize
                      (Some (case desiredChunkSize input of
                               None \<Rightarrow> defaultChunkSize svc | Some x \<Rightarrow> x))
                      (init_fileSize input)
           in case createSession newId now input cs (Some (uploadTtlMs svc)) ses of
                (s, ses') \<Rightarrow>
                  (case drv_initUpload (storage svc) s d of
                     (Some e, d') \<Rightarrow> (Inl e, ses', d')
                   | (None, d') \<Rightarrow> (Inr s, ses', d'))))"

text \<open>
  \<open>handleChunk\<close>: \<open>tGet\<close>, \<open>tMark\<close> and \<open>tUpd\<close> are the clock readings of \<open>getSession\<close>,
  \<open>markChunkReceived\<close> and \<open>updateSession\<close>. The \<open>session\<close> object tested for
  \<open>pending\<close> after the write is the one fetched at the start; \<open>markChunkReceived\<close>
  writes its \<open>updatedAt\<close> only.
\<close>

definition handleChunk ::
  "'d TorrinService \<Rightarrow> HandleChunkInput \<Rightarrow> int \<Rightarrow> int \<Rightarrow> int \<Rightarrow> sessions \<times> 'd
     \<Rightarrow> (error + unit) \<times> sessions \<times> 'd" where
  "handleChunk svc input tGet tMark tUpd w =
     (case w of (ses, d) \<Rightarrow>
       (case getSessionOrThrow ses (chunk_uploadId input) tGet of
          Inl e \<Rightarrow> (Inl e, ses, d)
        | Inr s \<Rightarrow>
           (case validateSessionForChunk s of
              Some e \<Rightarrow> (Inl e, ses, d)
            | None \<Rightarrow>
               (case validateChunkIndex (chunk_index input) (totalChunks s) of
                  Some e \<Rightarrow> (Inl e, ses, d)
                | None \<Rightarrow>
                   (case getExpectedChunkSize (chunk_index input) (totalChunks s)
                           (fileSize s) (chunkSize s) of
                      Inl e \<Rightarrow> (Inl e, ses, d)
                    | Inr expectedSize \<Rightarrow>
                       if chunk_size input \<noteq> expectedSize
                       then (Inl (TorrinError CHUNK_SIZE_MISMATCH
                                    (SizeDetails expectedSize (chunk_size input))), ses, d)
                       else
                        (case drv_writeChunk (storage svc) s (chunk_index input)
                                (chunk_stream input) expectedSize (chunk_hash input) d of
                           (Some e, d') \<Rightarrow> (Inl e, ses, d')
                         | (None, d') \<Rightarrow>
                            (case markChunkReceived ses (chunk_uploadId input)
                                    (chunk_index input) tMark of
                               Inl e \<Rightarrow> (Inl e, ses, d')
                             | Inr ses1 \<Rightarrow>
                                if status s = pending
                                then (case updateSession ses1 (chunk_uploadId input)
                                             (\<lambda>x. x \<lparr> status := in_progress \<rparr>) tUpd of
                                        Inl e \<Rightarrow> (Inl e, ses1, d')
                                      | Inr (s', ses2) \<Rightarrow> (Inr (), ses2, d'))
                                else (Inr (), ses1, d'))))))))"

definition getStatus :: "sessions \<Rightarrow> string \<Rightarrow> int \<Rightarrow> error + TorrinUploadStatus" where
  "getStatus ses uid now =
     (case getSessionOrThrow ses uid now of
        Inl e \<Rightarrow> Inl e
      | Inr s \<Rightarrow>
         (case listReceivedChunks ses uid of
            Inl e \<Rightarrow> Inl e
          | Inr received \<Rightarrow>
              Inr \<lparr> st_uploadId = uploadId s,
                    st_status = status s,
                    st_fileName = fileName s,
                    st_fileSize = fileSize s,
                    st_chunkSize = chunkSize s,
                    st_totalChunks = totalChunks s,
                    st_receivedChunks = received,
                    st_missingChunks = getMissingChunks (totalChunks s) received \<rparr>))"

definition completeUpload ::
  "'d TorrinService \<Rightarrow> string \<Rightarrow> int \<Rightarrow> int \<Rightarrow> sessions \<times> 'd
     \<Rightarrow> (error + TorrinCompleteResult) \<times> sessions \<times> 'd" where
  "completeUpload svc uid tGet tUpd w =
     (case w of (ses, d) \<Rightarrow>
       (case getSessionOrThrow ses uid tGet of
          Inl e \<Rightarrow> (Inl e, ses, d)
        | Inr s \<Rightarrow>
           if status s = completed
           then (Inl (TorrinError UPLOAD_ALREADY_COMPLETED NoDetails), ses, d)
           else if status s = canceled
           then (Inl (TorrinError UPLOAD_CANCELED NoDetails), ses, d)
           else
            (case listReceivedChunks ses uid of
               Inl e \<Rightarrow> (Inl e, ses, d)
             | Inr received \<Rightarrow>
                (let missing = getMissingChunks (totalChunks s) received
                 in if length missing > 0
                    then (Inl (TorrinError MISSING_CHUNKS (MissingDetails missing)), ses, d)
                    else
                     (case drv_finalizeUpload (storage svc) s d of
                        (Inl e, d') \<Rightarrow> (Inl e, ses, d')
                      | (Inr location, d') \<Rightarrow>
                         (case updateSession ses uid (\<lambda>x. x \<lparr> status := completed \<rparr>) tUpd of
                            Inl e \<Rightarrow> (Inl e, ses, d')
                          | Inr (s', ses') \<Rightarrow>
                              (Inr \<lparr> res_uploadId = uploadId s,
                                     res_status = completed,
                                     res_fileName = fileName s,
                                     res_fileSize = fileSize s,
                                     res_location = location,
                                     res_metadata = metadata s \<rparr>, ses', d')))))))"

definition abortUpload ::
  "'d TorrinService \<Rightarrow> string \<Rightarrow> int \<Rightarrow> int \<Rightarrow> sessions \<times> 'd
     \<Rightarrow> (error + unit) \<times> sessions \<times> 'd" where
  "abortUpload svc uid tGet tUpd w =
     (case w of (ses, d) \<Rightarrow>
       (case getSessionOrThrow ses uid tGet of
          Inl e \<Rightarrow> (Inl e, ses, d)
        | Inr s \<Rightarrow>
           if status s = completed
           then (Inl (TorrinError UPLOAD_ALREADY_COMPLETED NoDetails), ses, d)
           else
            (case drv_abortUpload (storage svc) s d of
               (Some e, d') \<Rightarrow> (Inl e, ses, d')
             | (None, d') \<Rightarrow>
                (case updateSession ses uid (\<lambda>x. x \<lparr> status := canceled \<rparr>) tUpd of
                   Inl e \<Rightarrow> (Inl e, ses, d')
                 | Inr (s', ses') \<Rightarrow> (Inr (), ses', d')))))"

text \<open>
  The result of a cleanup sweep: the count of sessions cleaned and, for every failure,
  the upload id and the error (the source formats both into one message string).
\<close>

record CleanupResult =
  cleaned :: nat
  errors :: "(string \<times> error) list"

text \<open>
  One iteration of the loop of \<open>cleanupExpiredUploads\<close>: the \<open>try\<close> block aborts the
  upload in the driver unless the session is completed, then deletes the session and
  counts it; a driver error is caught and recorded.
\<close>

definition cleanupExpired_step ::
  "'d TorrinService \<Rightarrow> TorrinUploadSession \<Rightarrow> CleanupResult \<times> sessions \<times> 'd
     \<Rightarrow> CleanupResult \<times> sessions \<times> 'd" where
  "cleanupExpired_step svc s acc =
     (case acc of (r, ses, d) \<Rightarrow>
        if status s \<noteq> completed
        then (case drv_abortUpload (storage svc) s d of
                (Some e, d') \<Rightarrow> (r \<lparr> errors := errors r @ [(uploadId s, e)] \<rparr>, ses, d')
              | (None, d') \<Rightarrow>
                  (r \<lparr> cleaned := cleaned r + 1 \<rparr>, deleteSession ses (uploadId s), d'))
        else (r \<lparr> cleaned := cleaned r + 1 \<rparr>, deleteSession ses (uploadId s), d))"

definition cleanupExpiredUploads ::
  "'d TorrinService \<Rightarrow> int \<Rightarrow> sessions \<times> 'd \<Rightarrow> CleanupResult \<times> sessions \<times> 'd" where
  "cleanupExpiredUploads svc now w =
     (case w of (ses, d) \<Rightarrow>
        fold (cleanupExpired_step svc) (listExpiredSessions ses now)
          (\<lparr> cleaned = 0, errors = [] \<rparr>, ses, d))"

definition cleanupStale_step ::
  "'d TorrinService \<Rightarrow> int \<Rightarrow> int \<Rightarrow> TorrinUploadSession \<Rightarrow> CleanupResult \<times> sessions \<times> 'd
     \<Rightarrow> CleanupResult \<times> sessions \<times> 'd" where
  "cleanupStale_step svc maxAgeMs now s acc =
     (case acc of (r, ses, d) \<Rightarrow>
        (let age = now - updatedAt s;
             isStale = (age > maxAgeMs \<and> status s \<noteq> completed)
         in if isStale
            then (case drv_abortUpload (storage svc) s d of
                    (Some e, d') \<Rightarrow> (r \<lparr> errors := errors r @ [(uploadId s, e)] \<rparr>, ses, d')
                  | (None, d') \<Rightarrow>
                      (r \<lparr> cleaned := cleaned r + 1 \<rparr>, deleteSession ses (uploadId s), d'))
            else (r, ses, d)))"

definition cleanupStaleUploads ::
  "'d TorrinService \<Rightarrow> int \<Rightarrow> int \<Rightarrow> sessions \<times> 'd \<Rightarrow> CleanupResult \<times> sessions \<times> 'd" where
  "cleanupStaleUploads svc maxAgeMs now w =
     (case w of (ses, d) \<Rightarrow>
        fold (cleanupStale_step svc maxAgeMs now) (listAllSessions ses)
          (\<lparr> cleaned = 0, errors = [] \<rparr>, ses, d))"

text \<open>
  The states the service can be in: it starts on an empty store, and every operation
  that writes to the store or the driver leads from a reachable state to a reachable one.
\<close>

inductive reachable :: "'d TorrinService \<Rightarrow> sessions \<times> 'd \<Rightarrow> bool" for svc :: "'d TorrinService" where
  r_start: "reachable svc ([], d0)"
| r_init: "reachable svc w \<Longrightarrow> initUpload svc input newId now w = (res, w') \<Longrightarrow> reachable svc w'"
| r_chunk: "reachable svc w \<Longrightarrow> handleChunk svc input t1 t2 t3 w = (res, w') \<Longrightarrow> reachable svc w'"
| r_complete: "reachable svc w \<Longrightarrow> completeUpload svc uid t1 t2 w = (res, w') \<Longrightarrow> reachable svc w'"
| r_abort: "reachable svc w \<Longrightarrow> abortUpload svc uid t1 t2 w = (res, w') \<Longrightarrow> reachable svc w'"
| r_expired: "reachable svc w \<Longrightarrow> cleanupExpiredUploads svc now w = (cres, w') \<Longrightarrow> reachable svc w'"
| r_stale: "reachable svc w \<Longrightarrow> cleanupStaleUploads svc maxAge now w = (cres, w') \<Longrightarrow> reachable svc w'"

section \<open>The local file-system driver (packages/storage-local)\<close>

text \<open>
  The part of the file system the driver touches: the staging directories under
  \<open>tempDir\<close>, one per upload id, each mapping a file name to its content, and the final
  files by path. Failures of the operating system other than a missing directory are
  not modelled.
\<close>

record LocalFs =
  tempDirs :: "(string \<times> (string \<times> bytes) list) list"
  finalFiles :: "(string \<times> bytes) list"

record LocalStorageOptions =
  baseDir :: string
  preserveFileName :: bool

text \<open>\<open>Number.prototype.toString()\<close> on an integer: its decimal digits.\<close>

definition digit_char :: "nat \<Rightarrow> char" where
  "digit_char d = ''0123456789'' ! d"

function digits :: "nat \<Rightarrow> string" where
  "digits n = (if n < 10 then [digit_char n] else digits (n div 10) @ [digit_char (n mod 10)])"
  by pat_completeness auto
termination
  by (relation "measure (\<lambda>n. n)") auto

declare digits.simps [simp del]

definition toString :: "int \<Rightarrow> string" where
  "toString i = (if i < 0 then CHR ''-'' # digits (nat (- i)) else digits (nat i))"

definition padStart :: "nat \<Rightarrow> char \<Rightarrow> string \<Rightarrow> string" where
  "padStart n c s = replicate (n - length s) c @ s"

definition chunkFileName :: "int \<Rightarrow> string" where
  "chunkFileName chunkIndex = ''chunk_'' @ padStart 6 (CHR ''0'') (toString chunkIndex)"

text \<open>
  \<open>path.join\<close> of Node.js, in its POSIX form: the arguments that are not empty are joined
  with \<open>/\<close> and the result is normalised. \<open>normalizeString\<close> walks the segments between
  separators: an empty segment or \<open>.\<close> is dropped, \<open>..\<close> removes the segment before it
  (or is kept, in a relative path, when there is none to remove).
\<close>

fun split_path :: "string \<Rightarrow> string list" where
  "split_path [] = [[]]"
| "split_path (c # cs) =
     (if c = CHR ''/'' then [] # split_path cs
      else (case split_path cs of [] \<Rightarrow> [[c]] | s # ss \<Rightarrow> (c # s) # ss))"

fun join_segments :: "string list \<Rightarrow> string" where
  "join_segments [] = []"
| "join_segments [s] = s"
| "join_segments (s # t # ts) = s @ ''/'' @ join_segments (t # ts)"

fun normalizeString :: "bool \<Rightarrow> string list \<Rightarrow> string list \<Rightarrow> string list" where
  "normalizeString allowAboveRoot res [] = res"
| "normalizeString allowAboveRoot res (s # ss) =
     (if s = [] \<or> s = ''.'' then normalizeString allowAboveRoot res ss
      else if s = ''..''
      then (if res \<noteq> [] \<and> last res \<noteq> ''..''
            then normalizeString allowAboveRoot (butlast res) ss
            else if allowAboveRoot then normalizeString allowAboveRoot (res @ [''..'']) ss
            else normalizeString allowAboveRoot res ss)
      else normalizeString allowAboveRoot (res @ [s]) ss)"

definition normalize :: "string \<Rightarrow> string" where
  "normalize path =
     (if path = [] then ''.''
      else (let isAbsolute = (hd path = CHR ''/'');
                trailingSeparator = (last path = CHR ''/'');
                body = join_segments (normalizeString (\<not> isAbsolute) [] (split_path path))
            in if body = []
               then (if isAbsolute then ''/'' else if trailingSeparator then ''./'' else ''.'')
               else (if isAbsolute then ''/'' else []) @ body
                      @ (if trailingSeparator then ''/'' else [])))"

definition join :: "string list \<Rightarrow> string" where
  "join args =
     (let joined = join_segments (filter (\<lambda>a. a \<noteq> []) args)
      in if joined = [] then ''.'' else normalize joined)"

text \<open>\<open>getExtension\<close>: from the last dot on, when there is one and it is not the first character.\<close>

definition getExtension :: "string \<Rightarrow> string" where
  "getExtension name =
     (if CHR ''.'' \<notin> set name then []
      else (let lastDot = length name - 1 - length (takeWhile (\<lambda>c. c \<noteq> CHR ''.'') (rev name))
            in if lastDot > 0 then drop lastDot name else []))"

definition getFinalPath :: "LocalStorageOptions \<Rightarrow> TorrinUploadSession \<Rightarrow> string" where
  "getFinalPath opts s =
     (case fileName s of
        Some fname \<Rightarrow>
          if preserveFileName opts \<and> fname \<noteq> []
          then join [baseDir opts, uploadId s, fname]
          else join [baseDir opts, uploadId s @ (if fname \<noteq> [] then getExtension fname else [])]
      | None \<Rightarrow> join [baseDir opts, uploadId s])"

definition local_initUpload :: "TorrinUploadSession \<Rightarrow> LocalFs \<Rightarrow> error option \<times> LocalFs" where
  "local_initUpload s fs =
     (case map_of (tempDirs fs) (uploadId s) of
        Some dir \<Rightarrow> (None, fs)
      | None \<Rightarrow> (None, fs \<lparr> tempDirs := AList.update (uploadId s) [] (tempDirs fs) \<rparr>))"

text \<open>
  \<open>writeChunk\<close> streams the body to the chunk's path, then compares the length on disk
  with the expected size and removes the file on a mismatch.
\<close>

definition local_writeChunk ::
  "TorrinUploadSession \<Rightarrow> int \<Rightarrow> bytes \<Rightarrow> int \<Rightarrow> string option \<Rightarrow> LocalFs
     \<Rightarrow> error option \<times> LocalFs" where
  "local_writeChunk s chunkIndex body expectedSize h fs =
     (case map_of (tempDirs fs) (uploadId s) of
        None \<Rightarrow> (Some (TorrinError STORAGE_ERROR NoDetails), fs)
      | Some dir \<Rightarrow>
          if int (length body) \<noteq> expectedSize
          then (Some (TorrinError CHUNK_SIZE_MISMATCH
                        (SizeDetails expectedSize (int (length body)))),
                fs \<lparr> tempDirs := AList.update (uploadId s)
                                    (AList.delete (chunkFileName chunkIndex) dir) (tempDirs fs) \<rparr>)
          else (None,
                fs \<lparr> tempDirs := AList.update (uploadId s)
                                    (AList.update (chunkFileName chunkIndex) body dir)
                                    (tempDirs fs) \<rparr>))"

text \<open>
  \<open>finalizeUpload\<close>: \<open>readdir\<close> lists the staged file names, \<open>chunks.sort()\<close> orders them
  as strings (by code unit, here by byte), and the files are appended to the final
  file in that order; the staging directory is removed.
\<close>

definition readFile :: "(string \<times> bytes) list \<Rightarrow> string \<Rightarrow> bytes" where
  "readFile dir name = (case map_of dir name of None \<Rightarrow> [] | Some b \<Rightarrow> b)"

definition local_finalizeUpload ::
  "LocalStorageOptions \<Rightarrow> TorrinUploadSession \<Rightarrow> LocalFs
     \<Rightarrow> (error + TorrinStorageLocation) \<times> LocalFs" where
  "local_finalizeUpload opts s fs =
     (case map_of (tempDirs fs) (uploadId s) of
        None \<Rightarrow> (Inl (TorrinError STORAGE_ERROR NoDetails), fs)
      | Some dir \<Rightarrow>
          (let chunks = sort (map fst dir);
               finalPath = getFinalPath opts s
           in (Inr (LocalLocation finalPath),
               \<lparr> tempDirs = AList.delete (uploadId s) (tempDirs fs),
                 finalFiles = AList.update finalPath (concat (map (readFile dir) chunks))
                                (finalFiles fs) \<rparr>)))"

definition local_abortUpload :: "TorrinUploadSession \<Rightarrow> LocalFs \<Rightarrow> error option \<times> LocalFs" where
  "local_abortUpload s fs = (None, fs \<lparr> tempDirs := AList.delete (uploadId s) (tempDirs fs) \<rparr>)"

definition createLocalStorageDriver :: "LocalStorageOptions \<Rightarrow> LocalFs TorrinStorageDriver" where
  "createLocalStorageDriver opts =
     \<lparr> drv_initUpload = local_initUpload,
       drv_writeChunk = local_writeChunk,
       drv_finalizeUpload = local_finalizeUpload opts,
       drv_abortUpload = local_abortUpload \<rparr>"

section \<open>The client's chunk retry (packages/client: upload.ts)\<close>

text \<open>
  What \<open>uploadChunkWithRetry\<close> meets during attempt number \<open>k\<close> comes from outside the
  function: whether \<open>_isCanceled\<close> is set at its three tests, whether \<open>waitIfPaused\<close>
  returns, and whether the \<open>try\<close> block (slicing, the PUT request, the bookkeeping and
  \<open>saveState\<close>) completes or throws.
\<close>

datatype pause_outcome = NotPaused | Resumed | NeverResumed







section \<open>Example data\<close>

text \<open>
  A driver that performs no storage and records the calls it receives, in order; and
  the three-chunk upload of 2,500,000 bytes in chunks of 1,000,000.
\<close>

datatype driver_call =
    CallInit string
  | CallWrite string int
  | CallFinalize string
  | CallAbort string

definition recording_driver :: "driver_call list TorrinStorageDriver" where
  "recording_driver =
     \<lparr> drv_initUpload = (\<lambda>s log. (None, log @ [CallInit (uploadId s)])),
       drv_writeChunk = (\<lambda>s i body expected h log. (None, log @ [CallWrite (uploadId s) i])),
       drv_finalizeUpload =
         (\<lambda>s log. (Inr (LocalLocation (uploadId s)), log @ [CallFinalize (uploadId s)])),
       drv_abortUpload = (\<lambda>s log. (None, log @ [CallAbort (uploadId s)])) \<rparr>"

definition demo_service :: "driver_call list TorrinService" where
  "demo_service = newTorrinService recording_driver None None (Some 1000)"

definition demo_input :: TorrinSessionInitInput where
  "demo_input =
     \<lparr> init_fileName = Some ''a.bin'',
       init_fileSize = 2500000,
       init_mimeType = None,
       init_metadata = None,
       desiredChunkSize = Some 1000000 \<rparr>"

definition demo_chunk :: "int \<Rightarrow> int \<Rightarrow> HandleChunkInput" where
  "demo_chunk i n =
     \<lparr> chunk_uploadId = ''u_1'',
       chunk_index = i,
       chunk_size = n,
       chunk_hash = None,
       chunk_stream = [] \<rparr>"

definition demo_session :: TorrinUploadSession where
  "demo_session =
     \<lparr> uploadId = ''u_1'',
       fileName = Some ''a.bin'',
       fileSize = 2500000,
       mimeType = None,
       chunkSize = 1000000,
       totalChunks = 3,
       metadata = None,
       status = pending,
       createdAt = 0,
       updatedAt = 0,
       expiresAt = Some 1000 \<rparr>"

text \<open>The store after \<open>initUpload\<close> at time 0, and after chunks 0 and 2 have arrived.\<close>

definition demo_state1 :: "sessions \<times> driver_call list" where
  "demo_state1 = snd (initUpload demo_service demo_input ''u_1'' 0 ([], []))"

definition demo_state2 :: "sessions \<times> driver_call list" where
  "demo_state2 = snd (handleChunk demo_service (demo_chunk 0 1000000) 10 11 12 demo_state1)"

definition demo_state3 :: "sessions \<times> driver_call list" where
  "demo_state3 = snd (handleChunk demo_service (demo_chunk 2 500000) 20 21 22 demo_state2)"

text \<open>The same upload after chunk 1 has arrived, and after \<open>completeUpload\<close>.\<close>

definition demo_state4 :: "sessions \<times> driver_call list" where
  "demo_state4 = snd (handleChunk demo_service (demo_chunk 1 1000000) 25 26 27 demo_state3)"

definition demo_state5 :: "sessions \<times> driver_call list" where
  "demo_state5 = snd (completeUpload demo_service ''u_1'' 30 31 demo_state4)"



text \<open>
  An upload of 262,144,000,001 bytes in chunks of 256 KiB has 1,000,001 chunks; the
  local driver's staging directory with its last two chunks written, one byte each.
\<close>

definition big_session :: TorrinUploadSession where
  "big_session =
     \<lparr> uploadId = ''u_9'',
       fileName = None,
       fileSize = 262144000001,
       mimeType = None,
       chunkSize = 262144,
       totalChunks = 1000001,
       metadata = None,
       status = in_progress,
       createdAt = 0,
       updatedAt = 0,
       expiresAt = None \<rparr>"

definition local_opts :: LocalStorageOptions where
  "local_opts = \<lparr> baseDir = ''uploads'', preserveFileName = False \<rparr>"

definition staged_fs :: LocalFs where
  "staged_fs =
     snd (local_writeChunk big_session 1000000 ''b'' 1 None
       (snd (local_writeChunk big_session 999999 ''a'' 1 None
         (snd (local_initUpload big_session \<lparr> tempDirs = [], finalFiles = [] \<rparr>)))))"

section \<open>Well-formed stores\<close>

text \<open>
  What holds of every entry of the store in the states the service reaches: the entry
  is keyed by its session's upload id, the session has at least one chunk, and the
  received indices are distinct members of \<open>[0, totalChunks)\<close>. The keys of the map are
  distinct, as the keys of a \<open>Map\<close> are.
\<close>

definition entry_ok :: "string \<Rightarrow> StoredSession \<Rightarrow> bool" where
  "entry_ok k stored \<longleftrightarrow>
     uploadId (session stored) = k
     \<and> 1 \<le> totalChunks (session stored)
     \<and> distinct (receivedChunks stored)
     \<and> set (receivedChunks stored) \<subseteq> {0..<totalChunks (session stored)}"

definition store_inv :: "sessions \<Rightarrow> bool" where
  "store_inv ses \<longleftrightarrow>
     distinct (map fst ses) \<and> (\<forall>k stored. map_of ses k = Some stored \<longrightarrow> entry_ok k stored)"

section \<open>Chunk arithmetic\<close>

subsection \<open>The rounded quotient\<close>

lemma bit_length_bounds:
  "0 < a \<Longrightarrow> 1 \<le> bit_length a \<and> 2 ^ (bit_length a - 1) \<le> a \<and> a < 2 ^ bit_length a"
proof (induction a rule: bit_length.induct)
  case (1 a)
  show ?case
  proof (cases "a div 2 = 0")
    case True
    then have a1: "a = 1" using "1.prems" by presburger
    have "bit_length (a div 2) = 0" using True by (subst bit_length.simps) simp
    then have "bit_length a = 1" using "1.prems" by (subst bit_length.simps) simp
    then show ?thesis using a1 by simp
  next
    case False
    then have p: "0 < a div 2" using "1.prems" by presburger
    have ih: "1 \<le> bit_length (a div 2) \<and> 2 ^ (bit_length (a div 2) - 1) \<le> a div 2
                \<and> a div 2 < 2 ^ bit_length (a div 2)"
      using "1.IH" "1.prems" p by simp
    have s: "bit_length a = Suc (bit_length (a div 2))"
      using "1.prems" by (subst bit_length.simps) simp
    obtain k where k: "bit_length (a div 2) = Suc k" using ih by (cases "bit_length (a div 2)") auto
    have lo: "2 ^ k \<le> a div 2" and hi: "a div 2 < 2 ^ Suc k" using ih k by simp_all
    have "2 * 2 ^ k \<le> a" using lo by presburger
    moreover have "a < 2 * 2 ^ Suc k" using hi by presburger
    ultimately show ?thesis using s k by simp
  qed
qed

lemma bit_length_unique:
  assumes "2 ^ k \<le> a" "a < 2 ^ Suc k"
  shows "bit_length a = Suc k"
proof -
  have pos: "0 < a" using assms(1) by (smt (verit) zero_less_power)
  note b = bit_length_bounds[OF pos]
  obtain j where j: "bit_length a = Suc j" using b by (cases "bit_length a") auto
  have f1: "(2::int) ^ j < 2 ^ Suc k" using b j assms(2) by simp
  have "j < Suc k" by (rule power_less_imp_less_exp[where a="2::int"], simp) (fact f1)
  moreover have f2: "(2::int) ^ k < 2 ^ Suc j" using b j assms(1) by simp
  have "k < Suc j" by (rule power_less_imp_less_exp[where a="2::int"], simp) (fact f2)
  ultimately show ?thesis using j by simp
qed


lemma double_exponent_real:
  assumes "0 < a" "0 < b"
  shows "2 powi (double_exponent a b) \<le> real_of_int a / real_of_int b"
proof -
  let ?la = "bit_length a" and ?lb = "bit_length b"
  let ?d = "int ?la - int ?lb"
  note ba = bit_length_bounds[OF assms(1)] and bb = bit_length_bounds[OF assms(2)]
  have rb: "0 < real_of_int b" using assms(2) by simp
  have pd: "(2::real) powi ?d = 2 ^ ?la / 2 ^ ?lb"
    by (simp add: power_int_diff)
  show ?thesis
  proof (cases "if 0 \<le> ?d then b * 2 ^ nat ?d \<le> a else b \<le> a * 2 ^ nat (- ?d)")
    case True
    then have e: "double_exponent a b = ?d" by (simp add: double_exponent_def Let_def)
    show ?thesis
    proof (cases "0 \<le> ?d")
      case d: True
      with True have "b * 2 ^ nat ?d \<le> a" by simp
      then have "real_of_int (b * 2 ^ nat ?d) \<le> real_of_int a" by (rule of_int_le_iff[THEN iffD2])
      then have "real_of_int b * 2 ^ nat ?d \<le> real_of_int a" by simp
      then have "2 ^ nat ?d \<le> real_of_int a / real_of_int b"
        using rb by (simp add: pos_le_divide_eq mult.commute)
      moreover have "(2::real) powi ?d = 2 ^ nat ?d" using d by (simp add: power_int_def)
      ultimately show ?thesis using e by simp
    next
      case d: False
      with True have "b \<le> a * 2 ^ nat (- ?d)" by simp
      then have "real_of_int b \<le> real_of_int (a * 2 ^ nat (- ?d))" by (rule of_int_le_iff[THEN iffD2])
      then have "real_of_int b \<le> real_of_int a * 2 ^ nat (- ?d)" by simp
      then have "1 / 2 ^ nat (- ?d) \<le> real_of_int a / real_of_int b"
        using rb by (simp add: field_simps)
      moreover have "(2::real) powi ?d = 1 / 2 ^ nat (- ?d)"
        using d by (simp add: power_int_def inverse_eq_divide power_one_over)
      ultimately show ?thesis using e by simp
    qed
  next
    case False
    then have e: "double_exponent a b = ?d - 1" by (simp add: double_exponent_def Let_def)
    obtain k where k: "?la = Suc k" using ba by (cases ?la) auto
    have lo: "(2::real) ^ k \<le> real_of_int a"
    proof -
      have "2 ^ k \<le> a" using ba k by simp
      then have "real_of_int (2 ^ k) \<le> real_of_int a" by (rule of_int_le_iff[THEN iffD2])
      then show ?thesis by simp
    qed
    have hi: "real_of_int b \<le> 2 ^ ?lb"
    proof -
      have "b \<le> 2 ^ ?lb" using bb by simp
      then have "real_of_int b \<le> real_of_int (2 ^ ?lb)" by (rule of_int_le_iff[THEN iffD2])
      then show ?thesis by simp
    qed
    have "(2::real) powi (?d - 1) = 2 ^ k / 2 ^ ?lb"
    proof -
      have eq: "?d - 1 = int k - int ?lb" using k by simp
      have "(2::real) powi (int k - int ?lb) = 2 ^ k / 2 ^ ?lb" by (simp add: power_int_diff)
      then show ?thesis unfolding eq .
    qed
    also have "\<dots> \<le> real_of_int a / 2 ^ ?lb" using lo by (simp add: divide_right_mono)
    also have "\<dots> \<le> real_of_int a / real_of_int b"
      using hi rb assms(1) by (simp add: frac_le)
    finally show ?thesis using e by simp
  qed
qed

lemma double_exponent_scaled:
  assumes "0 < a" "0 < b"
  shows "double_exponent a b \<le> 52
           \<Longrightarrow> 2 ^ 52 * b \<le> a * 2 ^ nat (52 - double_exponent a b)"
    and "52 < double_exponent a b
           \<Longrightarrow> 2 ^ 52 * (b * 2 ^ nat (double_exponent a b - 52)) \<le> a"
proof -
  let ?e = "double_exponent a b"
  note r = double_exponent_real[OF assms]
  have rb: "0 < real_of_int b" using assms(2) by simp
  have rr: "2 powi ?e * real_of_int b \<le> real_of_int a"
    using r rb by (simp add: pos_le_divide_eq)
  {
    assume le: "?e \<le> 52"
    have "(2::real) powi ?e * 2 ^ nat (52 - ?e) = 2 powi ?e * 2 powi (52 - ?e)"
      using le by (simp add: power_int_def)
    also have "\<dots> = 2 powi (?e + (52 - ?e))" by (rule power_int_add[symmetric]) simp
    also have "\<dots> = 2 powi 52" by simp
    also have "\<dots> = 2 ^ 52" by (simp add: power_int_def)
    finally have p: "(2::real) powi ?e * 2 ^ nat (52 - ?e) = 2 ^ 52" .
    have "(2::real) ^ 52 * real_of_int b = (2 powi ?e * real_of_int b) * 2 ^ nat (52 - ?e)"
      using p by (simp add: mult_ac)
    also have "\<dots> \<le> real_of_int a * 2 ^ nat (52 - ?e)"
      using rr by (simp add: mult_right_mono)
    finally have "real_of_int (2 ^ 52 * b) \<le> real_of_int (a * 2 ^ nat (52 - ?e))" by simp
    then show "2 ^ 52 * b \<le> a * 2 ^ nat (52 - ?e)" by (rule of_int_le_iff[THEN iffD1])
  }
  {
    assume gt: "52 < ?e"
    have "(2::real) ^ 52 * 2 ^ nat (?e - 52) = 2 powi 52 * 2 powi (?e - 52)"
      using gt by (simp add: power_int_def)
    also have "\<dots> = 2 powi (52 + (?e - 52))" by (rule power_int_add[symmetric]) simp
    also have "\<dots> = 2 powi ?e" by simp
    finally have p: "(2::real) ^ 52 * 2 ^ nat (?e - 52) = 2 powi ?e" .
    have "(2::real) ^ 52 * (real_of_int b * 2 ^ nat (?e - 52)) = 2 powi ?e * real_of_int b"
      using p by (simp add: mult_ac)
    also have "\<dots> \<le> real_of_int a" by (rule rr)
    finally have "real_of_int (2 ^ 52 * (b * 2 ^ nat (?e - 52))) \<le> real_of_int a" by simp
    then show "2 ^ 52 * (b * 2 ^ nat (?e - 52)) \<le> a" by (rule of_int_le_iff[THEN iffD1])
  }
qed


lemma round_half_even_cases:
  assumes "0 < d"
  shows "round_half_even n d = n div d \<and> 2 * (n mod d) \<le> d
       \<or> round_half_even n d = n div d + 1 \<and> d \<le> 2 * (n mod d)"
  by (auto simp: round_half_even_def Let_def)

lemma round_half_even_error:
  assumes "0 < d"
  shows "2 * \<bar>round_half_even n d * d - n\<bar> \<le> d"
proof -
  have dm: "n = n div d * d + n mod d" by simp
  have m0: "0 \<le> n mod d" and m1: "n mod d < d" using assms by simp_all
  from round_half_even_cases[OF assms, of n] show ?thesis
  proof
    assume a: "round_half_even n d = n div d \<and> 2 * (n mod d) \<le> d"
    then have "round_half_even n d * d - n = - (n mod d)" using dm by (simp add: algebra_simps)
    then show ?thesis using a m0 by simp
  next
    assume a: "round_half_even n d = n div d + 1 \<and> d \<le> 2 * (n mod d)"
    then have "round_half_even n d * d - n = d - n mod d"
      using dm by (simp add: algebra_simps)
    then show ?thesis using a m1 by simp
  qed
qed

lemma round_half_even_exact:
  assumes "0 < d" "n mod d = 0"
  shows "round_half_even n d = n div d"
  using assms by (simp add: round_half_even_def Let_def)

lemma round_half_even_pos:
  assumes "0 < d" "d \<le> n"
  shows "1 \<le> round_half_even n d"
proof -
  have "1 \<le> n div d" using assms by (simp add: pos_imp_zdiv_pos_iff int_one_le_iff_zero_less)
  then show ?thesis using round_half_even_cases[OF assms(1), of n] by auto
qed

lemma double_quotient_pos:
  assumes "0 < a" "0 < b"
  shows "0 < double_quotient a b"
proof (cases "double_exponent a b \<le> 52")
  case True
  let ?K = "(2::int) ^ nat (52 - double_exponent a b)"
  have "b \<le> 2 ^ 52 * b" using assms(2) by simp
  also have "\<dots> \<le> a * ?K" using double_exponent_scaled(1)[OF assms True] .
  finally have "1 \<le> round_half_even (a * ?K) b" using assms(2) round_half_even_pos by simp
  then have "0 < real_of_int (round_half_even (a * ?K) b)" by simp
  then show ?thesis using True by (simp add: double_quotient_def Let_def)
next
  case False
  let ?K = "(2::int) ^ nat (double_exponent a b - 52)"
  have kp: "0 < b * ?K" using assms(2) by simp
  have "b * ?K \<le> 2 ^ 52 * (b * ?K)" using kp by simp
  also have "\<dots> \<le> a" using double_exponent_scaled(2)[OF assms] False by simp
  finally have "1 \<le> round_half_even a (b * ?K)" using kp round_half_even_pos by simp
  then have "0 < round_half_even a (b * ?K) * ?K" by simp
  then have "0 < real_of_int (round_half_even a (b * ?K) * ?K)" by (rule of_int_pos)
  then show ?thesis using False by (simp add: double_quotient_def Let_def)
qed

lemma js_divide_pos:
  assumes "0 < a" "0 < b"
  shows "js_divide a b = double_quotient a b" and "0 < js_divide a b"
  using assms double_quotient_pos[OF assms] by (simp_all add: js_divide_def)

lemma totalChunks_pos:
  assumes "0 < fs" "0 < cs"
  shows "1 \<le> calculateTotalChunks fs cs"
proof -
  have "0 < js_divide fs cs" using assms by (rule js_divide_pos(2))
  then have "0 < \<lceil>js_divide fs cs\<rceil>" by (simp add: ceiling_less_iff)
  then show ?thesis by (simp add: calculateTotalChunks_def)
qed

lemma bit_length_safe:
  assumes "0 < a" "a < 2 ^ 53"
  shows "bit_length a \<le> 53"
proof -
  note b = bit_length_bounds[OF assms(1)]
  obtain k where k: "bit_length a = Suc k" using b by (cases "bit_length a") auto
  have f: "(2::int) ^ k < 2 ^ 53" using b k assms(2) by simp
  have "k < 53" by (rule power_less_imp_less_exp[where a="2::int"], simp) (fact f)
  then show ?thesis using k by simp
qed

lemma double_exponent_safe:
  assumes "0 < b" "b \<le> a" "a < 2 ^ 53"
  shows "double_exponent a b \<le> 52"
proof -
  have a: "0 < a" using assms by simp
  have "bit_length a \<le> 53" using a assms(3) by (rule bit_length_safe)
  moreover have "1 \<le> bit_length b" using bit_length_bounds[OF assms(1)] by simp
  ultimately have "int (bit_length a) - int (bit_length b) \<le> 52" by simp
  then show ?thesis by (auto simp: double_exponent_def Let_def)
qed

lemma safe_quotient_ceiling:
  assumes cs: "0 < cs" and le: "cs \<le> fs" and safe: "fs < 2 ^ 53"
  shows "calculateTotalChunks fs cs = - ((- fs) div cs)"
proof -
  have fs: "0 < fs" using cs le by simp
  let ?e = "double_exponent fs cs"
  let ?K = "(2::int) ^ nat (52 - ?e)"
  let ?m = "round_half_even (fs * ?K) cs"
  have e: "?e \<le> 52" using cs le safe by (rule double_exponent_safe)
  have K: "0 < ?K" by simp
  have sc: "2 ^ 52 * cs \<le> fs * ?K" using double_exponent_scaled(1)[OF fs cs e] .
  have "fs * ?K < 2 ^ 53 * ?K" using safe K by (rule mult_strict_right_mono)
  with sc have "2 ^ 52 * cs < 2 ^ 53 * ?K" by (rule le_less_trans)
  then have c2K: "cs < 2 * ?K" by simp
  have val: "calculateTotalChunks fs cs = \<lceil>real_of_int ?m / real_of_int ?K\<rceil>"
    using fs cs e by (simp add: calculateTotalChunks_def js_divide_pos(1) double_quotient_def Let_def)
  also have "\<dots> = - ((- ?m) div ?K)" by (rule ceiling_divide_eq_div)
  finally have val': "calculateTotalChunks fs cs = - ((- ?m) div ?K)" .
  show ?thesis
  proof (cases "fs mod cs = 0")
    case True
    then have dv: "cs dvd fs" by (rule mod_0_imp_dvd)
    then have "cs dvd fs * ?K" by (rule dvd_mult2)
    then have "(fs * ?K) mod cs = 0" by simp
    then have "?m = (fs * ?K) div cs" using cs by (simp add: round_half_even_exact)
    also have "\<dots> = fs div cs * ?K" using dv by (rule dvd_div_mult[symmetric])
    finally have m: "?m = fs div cs * ?K" .
    have "real_of_int ?m / real_of_int ?K = real_of_int (fs div cs)"
      unfolding m by simp
    then have "\<lceil>real_of_int ?m / real_of_int ?K\<rceil> = fs div cs" by simp
    moreover have "- ((- fs) div cs) = fs div cs"
      using True cs by (simp add: zdiv_zminus1_eq_if)
    ultimately show ?thesis using val by simp
  next
    case False
    let ?n = "fs div cs + 1"
    have "0 \<le> fs mod cs" using cs by (rule pos_mod_sign)
    then have r0: "0 < fs mod cs" using False by (simp add: order_less_le)
    have r1: "fs mod cs < cs" using cs by simp
    note dm = div_mult_mod_eq[of fs cs]
    have n1: "(?n - 1) * cs = fs div cs * cs" by simp
    have n2: "?n * cs = fs div cs * cs + cs" by (simp add: algebra_simps)
    have lo: "(?n - 1) * cs + 1 \<le> fs" unfolding n1 using dm r0 by linarith
    have hi: "fs + 1 \<le> ?n * cs" unfolding n2 using dm r1 by linarith
    define P where "P = fs * ?K"
    define Q where "Q = ?m * cs"
    define R1 where "R1 = ((?n - 1) * ?K) * cs"
    define R2 where "R2 = (?n * ?K) * cs"
    have err: "2 * \<bar>Q - P\<bar> \<le> cs"
      unfolding P_def Q_def using cs by (rule round_half_even_error)
    have "((?n - 1) * cs + 1) * ?K \<le> fs * ?K" using lo K by (simp add: mult_right_mono)
    then have b1: "R1 + ?K \<le> P" unfolding R1_def P_def by (simp add: algebra_simps)
    have "(fs + 1) * ?K \<le> (?n * cs) * ?K" using hi K by (simp add: mult_right_mono)
    then have b2: "P + ?K \<le> R2" unfolding R2_def P_def by (simp add: algebra_simps)
    define k where "k = ?K"
    have b1': "R1 + k \<le> P" and b2': "P + k \<le> R2" and c2k: "cs < 2 * k"
      using b1 b2 c2K by (simp_all add: k_def)
    have "R1 < Q" using err b1' c2k by presburger
    then have g1: "(?n - 1) * ?K < ?m"
      unfolding R1_def Q_def using cs by (simp add: mult_less_cancel_right)
    have "Q < R2" using err b2' c2k by presburger
    then have g2: "?m < ?n * ?K"
      unfolding R2_def Q_def using cs by (simp add: mult_less_cancel_right)
    have "\<lceil>real_of_int ?m / real_of_int ?K\<rceil> = ?n"
    proof (rule ceiling_unique)
      have "real_of_int ((?n - 1) * ?K) < real_of_int ?m" using g1 by (rule of_int_less_iff[THEN iffD2])
      then show "real_of_int ?n - 1 < real_of_int ?m / real_of_int ?K"
        using K by (simp add: pos_less_divide_eq algebra_simps)
      have "?m \<le> ?n * ?K" using g2 by (rule less_imp_le)
      then have "real_of_int ?m \<le> real_of_int (?n * ?K)" by (rule of_int_le_iff[THEN iffD2])
      then show "real_of_int ?m / real_of_int ?K \<le> real_of_int ?n"
        using K by (simp add: pos_divide_le_eq)
    qed
    moreover have "- ((- fs) div cs) = ?n" using False cs by (simp add: zdiv_zminus1_eq_if)
    ultimately show ?thesis using val by simp
  qed
qed


lemma bit_length_big: "bit_length 1152921504607000064 = 61"
proof -
  have "bit_length 1152921504607000064 = Suc 60" by (rule bit_length_unique) simp_all
  then show ?thesis by simp
qed

lemma bit_length_million: "bit_length 1000000 = 20"
proof -
  have "bit_length 1000000 = Suc 19" by (rule bit_length_unique) simp_all
  then show ?thesis by simp
qed

lemma double_exponent_big: "double_exponent 1152921504607000064 1000000 = 40"
  by (simp add: double_exponent_def bit_length_big bit_length_million)

lemma round_half_even_big:
  "round_half_even (1152921504607000064 * 2 ^ 12) 1000000 = 4722366482870272"
  by (simp add: round_half_even_def)

lemma total_big: "calculateTotalChunks 1152921504607000064 1000000 = 1152921504607"
proof -
  have "double_quotient 1152921504607000064 1000000 = 4722366482870272 / 2 ^ 12"
    by (simp add: double_quotient_def double_exponent_big round_half_even_big[simplified])
  also have "\<dots> = 1152921504607" by simp
  finally have "double_quotient 1152921504607000064 1000000 = 1152921504607" .
  then show ?thesis by (simp add: calculateTotalChunks_def js_divide_def)
qed

lemma safe_total:
  assumes "0 < cs" "cs \<le> fs" "fs \<le> MAX_SAFE_INTEGER"
  shows "calculateTotalChunks fs cs = - ((- fs) div cs)"
proof -
  have "fs < 2 ^ 53" using assms(3) by (simp add: MAX_SAFE_INTEGER_def)
  with assms(1,2) show ?thesis by (rule safe_quotient_ceiling)
qed

lemma demo_total: "calculateTotalChunks 2500000 1000000 = 3"
  by (subst safe_total) (simp_all add: MAX_SAFE_INTEGER_def)

lemma small_total: "calculateTotalChunks 1000 1000 = 1"
  by (subst safe_total) (simp_all add: MAX_SAFE_INTEGER_def)

subsection \<open>Expected chunk sizes\<close>

lemma js_rem_nonneg: "0 \<le> a \<Longrightarrow> 0 < b \<Longrightarrow> js_rem a b = a mod b"
  by (cases "a = 0") (simp_all add: js_rem_def)

lemma totalChunks_split:
  assumes "0 < cs" "cs \<le> fs" "fs \<le> MAX_SAFE_INTEGER"
  shows "calculateTotalChunks fs cs = (if fs mod cs = 0 then fs div cs else fs div cs + 1)"
proof -
  have "- ((- fs) div cs) = (if fs mod cs = 0 then fs div cs else fs div cs + 1)"
    using assms(1) by (simp add: zdiv_zminus1_eq_if)
  then show ?thesis using safe_total[OF assms] by simp
qed

lemma last_chunk_size:
  assumes "0 < cs" "cs \<le> fs" "fs \<le> MAX_SAFE_INTEGER"
  shows "(calculateTotalChunks fs cs - 1) * cs
           + (if fs mod cs = 0 then cs else fs mod cs) = fs"
proof (cases "fs mod cs = 0")
  case True
  then have "fs div cs * cs = fs" by auto
  with True show ?thesis by (simp add: totalChunks_split[OF assms] left_diff_distrib)
next
  case False
  have "fs div cs * cs + fs mod cs = fs" by simp
  with False show ?thesis by (simp add: totalChunks_split[OF assms])
qed

lemma expected_inner:
  assumes "0 \<le> i" "i < n - 1"
  shows "getExpectedChunkSize i n fs cs = Inr cs"
  using assms by (simp add: getExpectedChunkSize_def)

lemma expected_last:
  assumes "0 < fs" "0 < cs" "1 \<le> n"
  shows "getExpectedChunkSize (n - 1) n fs cs = Inr (if fs mod cs = 0 then cs else fs mod cs)"
  using assms by (simp add: getExpectedChunkSize_def js_rem_nonneg)

lemma expected_sum:
  assumes "0 < fs" "0 < cs" "1 \<le> n"
  shows "(\<Sum>i = 0..<n. (case getExpectedChunkSize i n fs cs of Inr s \<Rightarrow> s | Inl e \<Rightarrow> 0))
           = (n - 1) * cs + (if fs mod cs = 0 then cs else fs mod cs)"
proof -
  let ?g = "\<lambda>i. (case getExpectedChunkSize i n fs cs of Inr s \<Rightarrow> s | Inl e \<Rightarrow> 0)"
  have split: "{0..<n} = insert (n - 1) {0..<n - 1}" using assms(3) by auto
  have inner: "(\<Sum>i = 0..<n - 1. ?g i) = (\<Sum>i = 0..<n - 1. cs)"
    by (rule sum.cong) (simp_all add: expected_inner)
  have "(\<Sum>i = 0..<n. ?g i) = ?g (n - 1) + (\<Sum>i = 0..<n - 1. ?g i)"
    unfolding split by (rule sum.insert) simp_all
  also have "\<dots> = (if fs mod cs = 0 then cs else fs mod cs) + (n - 1) * cs"
    using assms(3) by (simp add: inner expected_last[OF assms])
  finally show ?thesis by (simp add: add.commute)
qed

text \<open>
  Claim C1, as amended. For every file size \<open>fs\<close> with \<open>0 < fs \<le> 2^53 - 1\<close> (a safe
  integer) and chunk size \<open>cs\<close> between \<open>MIN_CHUNK_SIZE\<close> and \<open>min MAX_CHUNK_SIZE fs\<close>, the
  total \<open>n\<close> computed by \<open>calculateTotalChunks\<close> is the ceiling of \<open>fs / cs\<close>, that is the
  least \<open>n\<close> with \<open>fs \<le> n * cs\<close>; every index below \<open>n\<close> has an expected size; the
  expected sizes of the indices \<open>0, \<dots>, n - 1\<close> add up to \<open>fs\<close>; the last one lies in
  \<open>(0, cs]\<close>; every other one is \<open>cs\<close>.
\<close>

theorem chunk_size_arithmetic:
  assumes "0 < fs" "fs \<le> MAX_SAFE_INTEGER"
    and "MIN_CHUNK_SIZE \<le> cs" "cs \<le> min MAX_CHUNK_SIZE fs"
  shows "(let n = calculateTotalChunks fs cs in
            n = \<lceil>real_of_int fs / real_of_int cs\<rceil>
          \<and> (n - 1) * cs < fs \<and> fs \<le> n * cs
          \<and> (\<forall>i. 0 \<le> i \<and> i < n \<longrightarrow> (\<exists>s. getExpectedChunkSize i n fs cs = Inr s))
          \<and> (\<Sum>i = 0..<n. (case getExpectedChunkSize i n fs cs of Inr s \<Rightarrow> s | Inl e \<Rightarrow> 0)) = fs
          \<and> (\<exists>l. getExpectedChunkSize (n - 1) n fs cs = Inr l \<and> 0 < l \<and> l \<le> cs)
          \<and> (\<forall>i. 0 \<le> i \<and> i < n - 1 \<longrightarrow> getExpectedChunkSize i n fs cs = Inr cs))"
proof -
  define n where "n = calculateTotalChunks fs cs"
  have cs: "0 < cs" using assms(3) by (simp add: MIN_CHUNK_SIZE_def)
  have le: "cs \<le> fs" using assms(4) by simp
  have n1: "1 \<le> n" unfolding n_def using assms(1) cs by (rule totalChunks_pos)
  let ?l = "if fs mod cs = 0 then cs else fs mod cs"
  have l: "0 < ?l \<and> ?l \<le> cs"
    using cs pos_mod_bound[OF cs, of fs] pos_mod_sign[OF cs, of fs] by (auto simp: order_less_le)
  have tot: "(n - 1) * cs + ?l = fs"
    unfolding n_def using cs le assms(2) by (rule last_chunk_size)
  have "n = - ((- fs) div cs)" unfolding n_def using cs le assms(2) by (rule safe_total)
  also have "\<dots> = \<lceil>real_of_int fs / real_of_int cs\<rceil>" by (rule ceiling_divide_eq_div[symmetric])
  finally have c1: "n = \<lceil>real_of_int fs / real_of_int cs\<rceil>" .
  have c2: "(n - 1) * cs < fs \<and> fs \<le> n * cs"
    using tot l by (auto simp: left_diff_distrib)
  have c5: "\<forall>i. 0 \<le> i \<and> i < n - 1 \<longrightarrow> getExpectedChunkSize i n fs cs = Inr cs"
    by (simp add: expected_inner)
  have last: "getExpectedChunkSize (n - 1) n fs cs = Inr ?l"
    using assms(1) cs n1 by (rule expected_last)
  have c4: "\<exists>l. getExpectedChunkSize (n - 1) n fs cs = Inr l \<and> 0 < l \<and> l \<le> cs"
    using last l by blast
  have c3: "\<forall>i. 0 \<le> i \<and> i < n \<longrightarrow> (\<exists>s. getExpectedChunkSize i n fs cs = Inr s)"
    by (simp add: getExpectedChunkSize_def Let_def)
  have c6: "(\<Sum>i = 0..<n. (case getExpectedChunkSize i n fs cs of Inr s \<Rightarrow> s | Inl e \<Rightarrow> 0)) = fs"
    using expected_sum[OF assms(1) cs n1] tot by simp
  show ?thesis
    unfolding Let_def n_def[symmetric] using c1 c2 c3 c4 c5 c6 by blast
qed

theorem chunk_size_arithmetic_witness:
  "calculateTotalChunks 2500000 1000000 = 3
   \<and> getExpectedChunkSize 0 3 2500000 1000000 = Inr 1000000
   \<and> getExpectedChunkSize 1 3 2500000 1000000 = Inr 1000000
   \<and> getExpectedChunkSize 2 3 2500000 1000000 = Inr 500000
   \<and> (\<Sum>i = 0..<3. (case getExpectedChunkSize i 3 2500000 1000000 of Inr s \<Rightarrow> s | Inl e \<Rightarrow> 0)) = 2500000"
proof -
  have h: "(0::int) < 2500000" "2500000 \<le> MAX_SAFE_INTEGER" "MIN_CHUNK_SIZE \<le> 1000000"
    "1000000 \<le> min MAX_CHUNK_SIZE 2500000"
    by (simp_all add: MIN_CHUNK_SIZE_def MAX_CHUNK_SIZE_def MAX_SAFE_INTEGER_def)
  note t0 = chunk_size_arithmetic[OF h, unfolded Let_def]
  have "calculateTotalChunks 2500000 1000000 = \<lceil>real_of_int 2500000 / real_of_int 1000000\<rceil>"
    using t0 by (rule conjunct1)
  then have n: "calculateTotalChunks 2500000 1000000 = 3" by simp
  note t = t0[THEN conjunct2, unfolded n]
  have e0: "getExpectedChunkSize 0 3 2500000 1000000 = Inr 1000000" using t by simp
  have e1: "getExpectedChunkSize 1 3 2500000 1000000 = Inr 1000000" using t by simp
  have e2: "getExpectedChunkSize 2 3 2500000 1000000 = Inr 500000"
    by (simp add: getExpectedChunkSize_def js_rem_def)
  show ?thesis using n e0 e1 e2 t by simp
qed

text \<open>
  Claim C1 as stated fails beyond the safe integers. The file size
  \<open>1152921504607000064 = 4503599627371094 * 2^8\<close> is a double, and with chunks of
  1,000,000 bytes the claim's conditions hold; the quotient 1152921504607.000064 rounds
  to the double 1152921504607, so \<open>calculateTotalChunks\<close> returns 1152921504607 where
  the ceiling is 1152921504608, the last chunk is expected to have 64 bytes, and the
  expected sizes add up to 1,000,000 bytes less than the file size.
\<close>

theorem chunk_size_arithmetic_counterexample:
  "(0::int) < 1152921504607000064
   \<and> (1152921504607000064::int) = 4503599627371094 * 2 ^ 8
   \<and> (4503599627371094::int) < 2 ^ 53
   \<and> MIN_CHUNK_SIZE \<le> 1000000
   \<and> 1000000 \<le> min MAX_CHUNK_SIZE 1152921504607000064
   \<and> calculateTotalChunks 1152921504607000064 1000000 = 1152921504607
   \<and> \<lceil>real_of_int 1152921504607000064 / real_of_int 1000000\<rceil> = 1152921504608
   \<and> getExpectedChunkSize 1152921504606 1152921504607 1152921504607000064 1000000 = Inr 64
   \<and> (\<Sum>i = 0..<1152921504607.
         (case getExpectedChunkSize i 1152921504607 1152921504607000064 1000000 of
            Inr s \<Rightarrow> s | Inl e \<Rightarrow> 0))
       = 1152921504607000064 - 1000000"
proof -
  have a: "MIN_CHUNK_SIZE \<le> 1000000 \<and> 1000000 \<le> min MAX_CHUNK_SIZE 1152921504607000064"
    by (simp add: MIN_CHUNK_SIZE_def MAX_CHUNK_SIZE_def)
  have b: "\<lceil>real_of_int 1152921504607000064 / real_of_int 1000000\<rceil> = 1152921504608"
    by simp
  have c: "getExpectedChunkSize 1152921504606 1152921504607 1152921504607000064 1000000 = Inr 64"
    by (simp add: getExpectedChunkSize_def js_rem_def)
  have d: "(\<Sum>i = 0..<1152921504607.
         (case getExpectedChunkSize i 1152921504607 1152921504607000064 1000000 of
            Inr s \<Rightarrow> s | Inl e \<Rightarrow> 0))
       = 1152921504607000064 - 1000000"
    by (subst expected_sum) simp_all
  show ?thesis using a b c d total_big by simp
qed

lemma demo_init_eval:
  "initUpload demo_service demo_input ''u_1'' 0 ([], []) =
     (Inr demo_session,
      [(''u_1'', \<lparr> session = demo_session, receivedChunks = [] \<rparr>)],
      [CallInit ''u_1''])"
  by (simp add: initUpload_def demo_service_def newTorrinService_def demo_input_def
      normalizeChunkSize_def MIN_CHUNK_SIZE_def MAX_CHUNK_SIZE_def createSession_def
      demo_total small_total recording_driver_def demo_session_def Let_def)

lemma demo_state1_eval:
  "demo_state1 = ([(''u_1'', \<lparr> session = demo_session, receivedChunks = [] \<rparr>)], [CallInit ''u_1''])"
  by (simp add: demo_state1_def demo_init_eval)

lemmas handleChunk_eval_defs =
  handleChunk_def getSessionOrThrow_def getSession_def validateSessionForChunk_def
  validateChunkIndex_def getExpectedChunkSize_def js_rem_def markChunkReceived_def
  updateSession_def Set_add_def demo_service_def newTorrinService_def recording_driver_def
  demo_chunk_def demo_session_def Let_def

lemma demo_state2_eval:
  "demo_state2 =
     ([(''u_1'', \<lparr> session = demo_session \<lparr> status := in_progress, updatedAt := 12 \<rparr>,
                  receivedChunks = [0] \<rparr>)],
      [CallInit ''u_1'', CallWrite ''u_1'' 0])"
  by (simp add: demo_state2_def demo_state1_eval handleChunk_eval_defs)

lemma demo_state3_eval:
  "demo_state3 =
     ([(''u_1'', \<lparr> session = demo_session \<lparr> status := in_progress, updatedAt := 21 \<rparr>,
                  receivedChunks = [0, 2] \<rparr>)],
      [CallInit ''u_1'', CallWrite ''u_1'' 0, CallWrite ''u_1'' 2])"
  by (simp add: demo_state3_def demo_state2_eval handleChunk_eval_defs)


section \<open>The store and the service\<close>

subsection \<open>getSession\<close>

lemma getSession_Some_stored:
  "getSession ses uid now = Some s \<Longrightarrow> \<exists>stored. map_of ses uid = Some stored \<and> session stored = s"
  by (auto simp: getSession_def split: option.splits if_splits)

text \<open>
  Claim C8, as amended. \<open>getSession\<close> of the in-memory store returns nothing for an unknown
  upload id; for a stored session with \<open>expiresAt\<close> defined it returns nothing when
  \<open>expiresAt < now\<close> and the session when \<open>now \<le> expiresAt\<close>, so also at the moment
  \<open>expiresAt = now\<close>.
\<close>

theorem getSession_expiry:
  "(map_of ses uid = None \<longrightarrow> getSession ses uid now = None)
   \<and> (\<forall>stored e. map_of ses uid = Some stored \<and> expiresAt (session stored) = Some e \<longrightarrow>
         (e < now \<longrightarrow> getSession ses uid now = None)
       \<and> (now \<le> e \<longrightarrow> getSession ses uid now = Some (session stored)))"
  by (simp add: getSession_def)

theorem getSession_expiry_witness:
  "getSession [(''u_1'', \<lparr> session = demo_session, receivedChunks = [] \<rparr>)] ''u_1'' 1001 = None
   \<and> getSession [(''u_1'', \<lparr> session = demo_session, receivedChunks = [] \<rparr>)] ''u_1'' 999
        = Some demo_session
   \<and> getSession [(''u_1'', \<lparr> session = demo_session, receivedChunks = [] \<rparr>)] ''u_2'' 999 = None"
  using getSession_expiry[of "[(''u_1'', \<lparr> session = demo_session, receivedChunks = [] \<rparr>)]" "''u_1''" 1001]
    getSession_expiry[of "[(''u_1'', \<lparr> session = demo_session, receivedChunks = [] \<rparr>)]" "''u_1''" 999]
    getSession_expiry[of "[(''u_1'', \<lparr> session = demo_session, receivedChunks = [] \<rparr>)]" "''u_2''" 999]
  by (simp add: demo_session_def)

text \<open>
  Claim C8 as stated fails at the boundary: the session created at time 0 with a TTL of
  1000 has \<open>expiresAt = 1000\<close>, and at \<open>now = 1000\<close> the store still returns it.
\<close>

theorem getSession_at_expiry_counterexample:
  "fst demo_state1 = [(''u_1'', \<lparr> session = demo_session, receivedChunks = [] \<rparr>)]
   \<and> expiresAt demo_session = Some 1000
   \<and> (1000::int) \<le> 1000
   \<and> getSession (fst demo_state1) ''u_1'' 1000 = Some demo_session"
  by (simp add: demo_state1_eval getSession_def demo_session_def)

subsection \<open>initUpload\<close>

lemma normalizeChunkSize_bounds:
  assumes "0 < fs"
  shows "normalizeChunkSize d fs = min fs (max MIN_CHUNK_SIZE (min MAX_CHUNK_SIZE (case d of None \<Rightarrow> DEFAULT_CHUNK_SIZE | Some x \<Rightarrow> x)))"
    and "0 < normalizeChunkSize d fs"
    and "normalizeChunkSize d fs \<le> fs"
    and "normalizeChunkSize d fs \<le> MAX_CHUNK_SIZE"
    and "MIN_CHUNK_SIZE \<le> fs \<Longrightarrow> MIN_CHUNK_SIZE \<le> normalizeChunkSize d fs"
    and "fs < MIN_CHUNK_SIZE \<Longrightarrow> normalizeChunkSize d fs = fs"
  using assms
  by (auto simp: normalizeChunkSize_def Let_def MIN_CHUNK_SIZE_def MAX_CHUNK_SIZE_def split: option.splits)

lemma initUpload_created:
  assumes "0 < init_fileSize input"
    and "initUpload svc input newId now (ses, d) = (res, ses', d')"
  shows "\<exists>s. map_of ses' newId = Some \<lparr> session = s, receivedChunks = [] \<rparr>
           \<and> (\<forall>r. res = Inr r \<longrightarrow> r = s)
           \<and> uploadId s = newId
           \<and> fileSize s = init_fileSize input
           \<and> status s = pending
           \<and> chunkSize s = normalizeChunkSize
                (Some (case desiredChunkSize input of None \<Rightarrow> defaultChunkSize svc | Some x \<Rightarrow> x))
                (init_fileSize input)
           \<and> totalChunks s = calculateTotalChunks (fileSize s) (chunkSize s)"
  using assms
  by (auto simp: initUpload_def createSession_def Let_def update_conv' split: prod.splits option.splits)

text \<open>
  Claim C6, as amended. For every init input with \<open>fileSize > 0\<close> and any desired chunk
  size, the session that \<open>initUpload\<close> creates has
  \<open>chunkSize = min fileSize (max 256 KiB (min 100 MiB desired))\<close>: positive, never greater
  than \<open>fileSize\<close>, never greater than 100 MiB, at least 256 KiB whenever
  \<open>fileSize\<close> is, and equal to \<open>fileSize\<close> for a file smaller than 256 KiB.
\<close>

theorem initUpload_chunkSize:
  assumes "0 < init_fileSize input"
    and "initUpload svc input newId now (ses, d) = (res, ses', d')"
  shows "\<exists>stored. map_of ses' newId = Some stored
           \<and> (\<forall>r. res = Inr r \<longrightarrow> r = session stored)
           \<and> chunkSize (session stored) =
               min (init_fileSize input)
                 (max MIN_CHUNK_SIZE (min MAX_CHUNK_SIZE
                    (case desiredChunkSize input of None \<Rightarrow> defaultChunkSize svc | Some x \<Rightarrow> x)))
           \<and> 0 < chunkSize (session stored)
           \<and> chunkSize (session stored) \<le> fileSize (session stored)
           \<and> chunkSize (session stored) \<le> MAX_CHUNK_SIZE
           \<and> (MIN_CHUNK_SIZE \<le> fileSize (session stored)
                \<longrightarrow> MIN_CHUNK_SIZE \<le> chunkSize (session stored))
           \<and> (fileSize (session stored) < MIN_CHUNK_SIZE
                \<longrightarrow> chunkSize (session stored) = fileSize (session stored))"
proof -
  from initUpload_created[OF assms] obtain s where
    m: "map_of ses' newId = Some \<lparr> session = s, receivedChunks = [] \<rparr>"
    and r: "\<forall>r. res = Inr r \<longrightarrow> r = s"
    and fs: "fileSize s = init_fileSize input"
    and cs: "chunkSize s = normalizeChunkSize
                (Some (case desiredChunkSize input of None \<Rightarrow> defaultChunkSize svc | Some x \<Rightarrow> x))
                (init_fileSize input)"
    by blast
  note b = normalizeChunkSize_bounds[OF assms(1),
      of "Some (case desiredChunkSize input of None \<Rightarrow> defaultChunkSize svc | Some x \<Rightarrow> x)"]
  have "chunkSize s = min (init_fileSize input)
                 (max MIN_CHUNK_SIZE (min MAX_CHUNK_SIZE
                    (case desiredChunkSize input of None \<Rightarrow> defaultChunkSize svc | Some x \<Rightarrow> x)))"
    using b(1) cs by simp
  moreover have "0 < chunkSize s" "chunkSize s \<le> fileSize s" "chunkSize s \<le> MAX_CHUNK_SIZE"
    using b(2,3,4) cs fs by simp_all
  moreover have "MIN_CHUNK_SIZE \<le> fileSize s \<longrightarrow> MIN_CHUNK_SIZE \<le> chunkSize s"
    using b(5) cs fs by simp
  moreover have "fileSize s < MIN_CHUNK_SIZE \<longrightarrow> chunkSize s = fileSize s"
    using b(6) cs fs by simp
  ultimately show ?thesis using m r by simp
qed

theorem initUpload_chunkSize_witness:
  "\<exists>stored. map_of (fst demo_state1) ''u_1'' = Some stored
     \<and> chunkSize (session stored) = 1000000
     \<and> MIN_CHUNK_SIZE \<le> chunkSize (session stored)
     \<and> chunkSize (session stored) \<le> MAX_CHUNK_SIZE
     \<and> chunkSize (session stored) \<le> fileSize (session stored)"
proof -
  have h: "0 < init_fileSize demo_input" by (simp add: demo_input_def)
  have e: "initUpload demo_service demo_input ''u_1'' 0 ([], []) =
     (Inr demo_session, fst demo_state1, snd demo_state1)"
    by (simp add: demo_init_eval demo_state1_eval)
  from initUpload_chunkSize[OF h e] show ?thesis
    by (auto simp: demo_input_def demo_state1_eval demo_session_def MIN_CHUNK_SIZE_def MAX_CHUNK_SIZE_def)
qed

text \<open>
  Claim C6 as stated fails for a file smaller than 256 KiB: a file of 1000 bytes gets a
  session with \<open>chunkSize = 1000\<close>, below the lower bound.
\<close>

theorem initUpload_small_file_counterexample:
  "0 < init_fileSize (demo_input \<lparr> init_fileSize := 1000 \<rparr>)
   \<and> (case initUpload demo_service (demo_input \<lparr> init_fileSize := 1000 \<rparr>) ''u_1'' 0 ([], []) of
        (res, ses, d) \<Rightarrow>
          res = Inr (demo_session \<lparr> fileSize := 1000, chunkSize := 1000, totalChunks := 1 \<rparr>)
          \<and> map_of ses ''u_1'' =
               Some \<lparr> session = demo_session \<lparr> fileSize := 1000, chunkSize := 1000, totalChunks := 1 \<rparr>,
                      receivedChunks = [] \<rparr>)
   \<and> \<not> (262144 \<le> chunkSize (demo_session \<lparr> fileSize := 1000, chunkSize := 1000, totalChunks := 1 \<rparr>))"
  by (simp add: initUpload_def demo_service_def newTorrinService_def demo_input_def
      normalizeChunkSize_def MIN_CHUNK_SIZE_def MAX_CHUNK_SIZE_def createSession_def
      demo_total small_total recording_driver_def demo_session_def Let_def)


subsection \<open>handleChunk\<close>

lemma markChunkReceived_Inr:
  assumes "map_of ses uid = Some stored"
  shows "markChunkReceived ses uid i t =
           Inr (AList.update uid \<lparr> session = (session stored) \<lparr> updatedAt := t \<rparr>,
                                  receivedChunks = Set_add i (receivedChunks stored) \<rparr> ses)"
  using assms by (simp add: markChunkReceived_def)

lemma updateSession_Inr:
  assumes "map_of ses uid = Some stored"
  shows "updateSession ses uid patch t =
           Inr ((patch (session stored)) \<lparr> updatedAt := t \<rparr>,
                AList.update uid (stored \<lparr> session := (patch (session stored)) \<lparr> updatedAt := t \<rparr> \<rparr>) ses)"
  using assms by (simp add: updateSession_def Let_def)

lemma set_Set_add: "set (Set_add i xs) = insert i (set xs)"
  by (auto simp: Set_add_def)

lemma distinct_Set_add: "distinct xs \<Longrightarrow> distinct (Set_add i xs)"
  by (simp add: Set_add_def)

lemma getExpectedChunkSize_in_range:
  "0 \<le> i \<Longrightarrow> i < n \<Longrightarrow> \<exists>e. getExpectedChunkSize i n fs cs = Inr e"
  by (simp add: getExpectedChunkSize_def Let_def)

lemma handleChunk_accept:
  assumes g: "getSession ses (chunk_uploadId inp) tGet = Some s"
    and m: "map_of ses (chunk_uploadId inp) = Some stored"
    and st: "status s \<noteq> completed" "status s \<noteq> canceled"
    and ix: "0 \<le> chunk_index inp" "chunk_index inp < totalChunks s"
    and ex: "getExpectedChunkSize (chunk_index inp) (totalChunks s) (fileSize s) (chunkSize s)
               = Inr (chunk_size inp)"
    and w: "drv_writeChunk (storage svc) s (chunk_index inp) (chunk_stream inp) (chunk_size inp)
              (chunk_hash inp) d = (None, d')"
  shows "handleChunk svc inp tGet tMark tUpd (ses, d) =
          (Inr (),
           (if status s = pending
            then AList.update (chunk_uploadId inp)
                   \<lparr> session = (session stored) \<lparr> status := in_progress, updatedAt := tUpd \<rparr>,
                     receivedChunks = Set_add (chunk_index inp) (receivedChunks stored) \<rparr> ses
            else AList.update (chunk_uploadId inp)
                   \<lparr> session = (session stored) \<lparr> updatedAt := tMark \<rparr>,
                     receivedChunks = Set_add (chunk_index inp) (receivedChunks stored) \<rparr> ses),
           d')"
  using assms
  by (simp add: handleChunk_def getSessionOrThrow_def validateSessionForChunk_def
      validateChunkIndex_def markChunkReceived_Inr updateSession_def update_conv' Let_def)

lemma handleChunk_fail_store:
  assumes "handleChunk svc inp tGet tMark tUpd (ses, d) = (Inl e, ses', d')"
  shows "ses' = ses"
proof (cases "getSession ses (chunk_uploadId inp) tGet")
  case None
  with assms show ?thesis by (simp add: handleChunk_def getSessionOrThrow_def)
next
  case (Some s)
  then obtain stored where m: "map_of ses (chunk_uploadId inp) = Some stored"
    using getSession_Some_stored by blast
  from assms Some m show ?thesis
    by (auto simp: handleChunk_def getSessionOrThrow_def markChunkReceived_Inr
        updateSession_def update_conv' Let_def
        split: option.splits sum.splits if_splits prod.splits)
qed

text \<open>
  Claim C10. Whenever \<open>handleChunk\<close> fails, with \<open>UPLOAD_NOT_FOUND\<close>,
  \<open>UPLOAD_ALREADY_COMPLETED\<close>, \<open>UPLOAD_CANCELED\<close>, \<open>CHUNK_OUT_OF_RANGE\<close>,
  \<open>CHUNK_SIZE_MISMATCH\<close> or any other error, the store is exactly as before the call:
  no chunk was marked received, and no session field was written.
\<close>

theorem handleChunk_failure_keeps_store:
  assumes "handleChunk svc inp tGet tMark tUpd (ses, d) = (Inl e, ses', d')"
  shows "ses' = ses"
  using assms by (rule handleChunk_fail_store)

theorem handleChunk_failure_keeps_store_witness:
  "handleChunk demo_service (demo_chunk 3 1000000) 10 11 12 demo_state1
     = (Inl (TorrinError CHUNK_OUT_OF_RANGE (IndexDetails 3 3)), demo_state1)
   \<and> handleChunk demo_service (demo_chunk 2 1000000) 10 11 12 demo_state1
     = (Inl (TorrinError CHUNK_SIZE_MISMATCH (SizeDetails 500000 1000000)), demo_state1)
   \<and> handleChunk demo_service (demo_chunk 0 1000000) 1001 1002 1003 demo_state1
     = (Inl (TorrinError UPLOAD_NOT_FOUND NoDetails), demo_state1)"
proof -
  have a: "fst (handleChunk demo_service (demo_chunk 3 1000000) 10 11 12 demo_state1)
             = Inl (TorrinError CHUNK_OUT_OF_RANGE (IndexDetails 3 3))"
       "snd (snd (handleChunk demo_service (demo_chunk 3 1000000) 10 11 12 demo_state1))
             = snd demo_state1"
    by (simp_all add: demo_state1_eval handleChunk_eval_defs)
  have b: "fst (handleChunk demo_service (demo_chunk 2 1000000) 10 11 12 demo_state1)
             = Inl (TorrinError CHUNK_SIZE_MISMATCH (SizeDetails 500000 1000000))"
       "snd (snd (handleChunk demo_service (demo_chunk 2 1000000) 10 11 12 demo_state1))
             = snd demo_state1"
    by (simp_all add: demo_state1_eval handleChunk_eval_defs)
  have c: "fst (handleChunk demo_service (demo_chunk 0 1000000) 1001 1002 1003 demo_state1)
             = Inl (TorrinError UPLOAD_NOT_FOUND NoDetails)"
       "snd (snd (handleChunk demo_service (demo_chunk 0 1000000) 1001 1002 1003 demo_state1))
             = snd demo_state1"
    by (simp_all add: demo_state1_eval handleChunk_eval_defs)
  have k: "\<And>inp t1 t2 t3 e. fst (handleChunk demo_service inp t1 t2 t3 demo_state1) = Inl e
             \<Longrightarrow> fst (snd (handleChunk demo_service inp t1 t2 t3 demo_state1)) = fst demo_state1"
    using handleChunk_failure_keeps_store[of demo_service _ _ _ _ "fst demo_state1" "snd demo_state1"]
    by (metis prod.collapse)
  show ?thesis
    using a b c k[OF a(1)] k[OF b(1)] k[OF c(1)] by (simp add: prod_eq_iff)
qed

text \<open>
  Claim C2. The checks of \<open>handleChunk\<close> in their order: no unexpired session gives
  \<open>UPLOAD_NOT_FOUND\<close>; else a completed session gives \<open>UPLOAD_ALREADY_COMPLETED\<close>; else a
  canceled one gives \<open>UPLOAD_CANCELED\<close>; else an index outside \<open>[0, totalChunks)\<close> gives
  \<open>CHUNK_OUT_OF_RANGE\<close>; else a size other than the expected one gives
  \<open>CHUNK_SIZE_MISMATCH\<close> with the expected and the actual size; otherwise the driver's
  \<open>writeChunk\<close> is run, its error is passed on, and on its success the index is added
  to the received set of the session (which becomes \<open>in_progress\<close> if it was pending).
  Each failure of a check leaves the store and the driver as they were.
\<close>

theorem handleChunk_check_order:
  "(getSession ses (chunk_uploadId inp) tGet = None \<longrightarrow>
      handleChunk svc inp tGet tMark tUpd (ses, d)
        = (Inl (TorrinError UPLOAD_NOT_FOUND NoDetails), ses, d))
   \<and> (\<forall>s. getSession ses (chunk_uploadId inp) tGet = Some s \<longrightarrow>
        (status s = completed \<longrightarrow>
           handleChunk svc inp tGet tMark tUpd (ses, d)
             = (Inl (TorrinError UPLOAD_ALREADY_COMPLETED NoDetails), ses, d))
      \<and> (status s = canceled \<longrightarrow>
           handleChunk svc inp tGet tMark tUpd (ses, d)
             = (Inl (TorrinError UPLOAD_CANCELED NoDetails), ses, d))
      \<and> (status s \<noteq> completed \<and> status s \<noteq> canceled
           \<and> (chunk_index inp < 0 \<or> totalChunks s \<le> chunk_index inp) \<longrightarrow>
           handleChunk svc inp tGet tMark tUpd (ses, d)
             = (Inl (TorrinError CHUNK_OUT_OF_RANGE
                       (IndexDetails (chunk_index inp) (totalChunks s))), ses, d))
      \<and> (status s \<noteq> completed \<and> status s \<noteq> canceled
           \<and> 0 \<le> chunk_index inp \<and> chunk_index inp < totalChunks s \<longrightarrow>
           (\<exists>expected.
              getExpectedChunkSize (chunk_index inp) (totalChunks s) (fileSize s) (chunkSize s)
                = Inr expected
            \<and> (chunk_size inp \<noteq> expected \<longrightarrow>
                 handleChunk svc inp tGet tMark tUpd (ses, d)
                   = (Inl (TorrinError CHUNK_SIZE_MISMATCH
                             (SizeDetails expected (chunk_size inp))), ses, d))
            \<and> (chunk_size inp = expected \<longrightarrow>
                 (\<forall>err d'. drv_writeChunk (storage svc) s (chunk_index inp) (chunk_stream inp)
                              expected (chunk_hash inp) d = (Some err, d') \<longrightarrow>
                    handleChunk svc inp tGet tMark tUpd (ses, d) = (Inl err, ses, d'))
               \<and> (\<forall>d'. drv_writeChunk (storage svc) s (chunk_index inp) (chunk_stream inp)
                          expected (chunk_hash inp) d = (None, d') \<longrightarrow>
                    (\<exists>ses' stored stored'.
                       handleChunk svc inp tGet tMark tUpd (ses, d) = (Inr (), ses', d')
                     \<and> map_of ses (chunk_uploadId inp) = Some stored
                     \<and> map_of ses' (chunk_uploadId inp) = Some stored'
                     \<and> set (receivedChunks stored')
                         = insert (chunk_index inp) (set (receivedChunks stored))
                     \<and> status (session stored')
                         = (if status s = pending then in_progress else status s)))))))"
proof -
  have nf: "getSession ses (chunk_uploadId inp) tGet = None \<longrightarrow>
      handleChunk svc inp tGet tMark tUpd (ses, d)
        = (Inl (TorrinError UPLOAD_NOT_FOUND NoDetails), ses, d)"
    by (simp add: handleChunk_def getSessionOrThrow_def)
  {
    fix s assume g: "getSession ses (chunk_uploadId inp) tGet = Some s"
    then obtain stored where m: "map_of ses (chunk_uploadId inp) = Some stored"
      and ss: "session stored = s"
      using getSession_Some_stored by blast
    have c1: "status s = completed \<longrightarrow>
           handleChunk svc inp tGet tMark tUpd (ses, d)
             = (Inl (TorrinError UPLOAD_ALREADY_COMPLETED NoDetails), ses, d)"
      using g by (simp add: handleChunk_def getSessionOrThrow_def validateSessionForChunk_def)
    have c2: "status s = canceled \<longrightarrow>
           handleChunk svc inp tGet tMark tUpd (ses, d)
             = (Inl (TorrinError UPLOAD_CANCELED NoDetails), ses, d)"
      using g by (simp add: handleChunk_def getSessionOrThrow_def validateSessionForChunk_def)
    have c3: "status s \<noteq> completed \<and> status s \<noteq> canceled
           \<and> (chunk_index inp < 0 \<or> totalChunks s \<le> chunk_index inp) \<longrightarrow>
           handleChunk svc inp tGet tMark tUpd (ses, d)
             = (Inl (TorrinError CHUNK_OUT_OF_RANGE
                       (IndexDetails (chunk_index inp) (totalChunks s))), ses, d)"
      using g by (auto simp: handleChunk_def getSessionOrThrow_def validateSessionForChunk_def
          validateChunkIndex_def)
    have c4: "status s \<noteq> completed \<and> status s \<noteq> canceled
           \<and> 0 \<le> chunk_index inp \<and> chunk_index inp < totalChunks s \<longrightarrow>
           (\<exists>expected.
              getExpectedChunkSize (chunk_index inp) (totalChunks s) (fileSize s) (chunkSize s)
                = Inr expected
            \<and> (chunk_size inp \<noteq> expected \<longrightarrow>
                 handleChunk svc inp tGet tMark tUpd (ses, d)
                   = (Inl (TorrinError CHUNK_SIZE_MISMATCH
                             (SizeDetails expected (chunk_size inp))), ses, d))
            \<and> (chunk_size inp = expected \<longrightarrow>
                 (\<forall>err d'. drv_writeChunk (storage svc) s (chunk_index inp) (chunk_stream inp)
                              expected (chunk_hash inp) d = (Some err, d') \<longrightarrow>
                    handleChunk svc inp tGet tMark tUpd (ses, d) = (Inl err, ses, d'))
               \<and> (\<forall>d'. drv_writeChunk (storage svc) s (chunk_index inp) (chunk_stream inp)
                          expected (chunk_hash inp) d = (None, d') \<longrightarrow>
                    (\<exists>ses' stored stored'.
                       handleChunk svc inp tGet tMark tUpd (ses, d) = (Inr (), ses', d')
                     \<and> map_of ses (chunk_uploadId inp) = Some stored
                     \<and> map_of ses' (chunk_uploadId inp) = Some stored'
                     \<and> set (receivedChunks stored')
                         = insert (chunk_index inp) (set (receivedChunks stored))
                     \<and> status (session stored')
                         = (if status s = pending then in_progress else status s)))))"
    proof (intro impI)
      assume a: "status s \<noteq> completed \<and> status s \<noteq> canceled
           \<and> 0 \<le> chunk_index inp \<and> chunk_index inp < totalChunks s"
      then obtain expected where ex:
        "getExpectedChunkSize (chunk_index inp) (totalChunks s) (fileSize s) (chunkSize s)
           = Inr expected"
        using getExpectedChunkSize_in_range by blast
      have mis: "chunk_size inp \<noteq> expected \<longrightarrow>
                 handleChunk svc inp tGet tMark tUpd (ses, d)
                   = (Inl (TorrinError CHUNK_SIZE_MISMATCH
                             (SizeDetails expected (chunk_size inp))), ses, d)"
        using g a ex by (simp add: handleChunk_def getSessionOrThrow_def
            validateSessionForChunk_def validateChunkIndex_def)
      have werr: "chunk_size inp = expected \<longrightarrow>
                 (\<forall>err d'. drv_writeChunk (storage svc) s (chunk_index inp) (chunk_stream inp)
                              expected (chunk_hash inp) d = (Some err, d') \<longrightarrow>
                    handleChunk svc inp tGet tMark tUpd (ses, d) = (Inl err, ses, d'))"
        using g a ex by (simp add: handleChunk_def getSessionOrThrow_def
            validateSessionForChunk_def validateChunkIndex_def)
      have wok: "chunk_size inp = expected \<longrightarrow>
                (\<forall>d'. drv_writeChunk (storage svc) s (chunk_index inp) (chunk_stream inp)
                          expected (chunk_hash inp) d = (None, d') \<longrightarrow>
                    (\<exists>ses' stored stored'.
                       handleChunk svc inp tGet tMark tUpd (ses, d) = (Inr (), ses', d')
                     \<and> map_of ses (chunk_uploadId inp) = Some stored
                     \<and> map_of ses' (chunk_uploadId inp) = Some stored'
                     \<and> set (receivedChunks stored')
                         = insert (chunk_index inp) (set (receivedChunks stored))
                     \<and> status (session stored')
                         = (if status s = pending then in_progress else status s)))"
      proof (intro impI allI)
        fix d'
        assume eq: "chunk_size inp = expected"
          and w: "drv_writeChunk (storage svc) s (chunk_index inp) (chunk_stream inp)
                          expected (chunk_hash inp) d = (None, d')"
        from a have a1: "status s \<noteq> completed" and a2: "status s \<noteq> canceled"
          and a3: "0 \<le> chunk_index inp" and a4: "chunk_index inp < totalChunks s"
          by simp_all
        note acc = handleChunk_accept[OF g m a1 a2 a3 a4 ex[folded eq] w[folded eq],
            of tMark tUpd]
        show "\<exists>ses' stored stored'.
                       handleChunk svc inp tGet tMark tUpd (ses, d) = (Inr (), ses', d')
                     \<and> map_of ses (chunk_uploadId inp) = Some stored
                     \<and> map_of ses' (chunk_uploadId inp) = Some stored'
                     \<and> set (receivedChunks stored')
                         = insert (chunk_index inp) (set (receivedChunks stored))
                     \<and> status (session stored')
                         = (if status s = pending then in_progress else status s)"
          using acc m ss by (cases "status s = pending") (simp_all add: update_conv' set_Set_add)
      qed
      from ex mis werr wok show "\<exists>expected.
              getExpectedChunkSize (chunk_index inp) (totalChunks s) (fileSize s) (chunkSize s)
                = Inr expected
            \<and> (chunk_size inp \<noteq> expected \<longrightarrow>
                 handleChunk svc inp tGet tMark tUpd (ses, d)
                   = (Inl (TorrinError CHUNK_SIZE_MISMATCH
                             (SizeDetails expected (chunk_size inp))), ses, d))
            \<and> (chunk_size inp = expected \<longrightarrow>
                 (\<forall>err d'. drv_writeChunk (storage svc) s (chunk_index inp) (chunk_stream inp)
                              expected (chunk_hash inp) d = (Some err, d') \<longrightarrow>
                    handleChunk svc inp tGet tMark tUpd (ses, d) = (Inl err, ses, d'))
               \<and> (\<forall>d'. drv_writeChunk (storage svc) s (chunk_index inp) (chunk_stream inp)
                          expected (chunk_hash inp) d = (None, d') \<longrightarrow>
                    (\<exists>ses' stored stored'.
                       handleChunk svc inp tGet tMark tUpd (ses, d) = (Inr (), ses', d')
                     \<and> map_of ses (chunk_uploadId inp) = Some stored
                     \<and> map_of ses' (chunk_uploadId inp) = Some stored'
                     \<and> set (receivedChunks stored')
                         = insert (chunk_index inp) (set (receivedChunks stored))
                     \<and> status (session stored')
                         = (if status s = pending then in_progress else status s))))"
        by blast
    qed
    note c1 c2 c3 c4
  }
  with nf show ?thesis by blast
qed

theorem handleChunk_check_order_witness:
  "handleChunk demo_service (demo_chunk 2 1000000) 10 11 12 demo_state1
     = (Inl (TorrinError CHUNK_SIZE_MISMATCH (SizeDetails 500000 1000000)), demo_state1)
   \<and> handleChunk demo_service (demo_chunk 3 1000000) 10 11 12 demo_state1
     = (Inl (TorrinError CHUNK_OUT_OF_RANGE (IndexDetails 3 3)), demo_state1)
   \<and> handleChunk demo_service (demo_chunk 0 1000000) 1001 1002 1003 demo_state1
     = (Inl (TorrinError UPLOAD_NOT_FOUND NoDetails), demo_state1)
   \<and> (\<exists>ses' stored'.
         handleChunk demo_service (demo_chunk 0 1000000) 10 11 12 demo_state1
           = (Inr (), ses', [CallInit ''u_1'', CallWrite ''u_1'' 0])
       \<and> map_of ses' ''u_1'' = Some stored'
       \<and> set (receivedChunks stored') = {0}
       \<and> status (session stored') = in_progress)"
proof -
  have g: "getSession (fst demo_state1) (chunk_uploadId (demo_chunk i n)) 10 = Some demo_session"
    for i n
    by (simp add: demo_state1_eval getSession_def demo_session_def demo_chunk_def)
  have g': "getSession (fst demo_state1) (chunk_uploadId (demo_chunk 0 1000000)) 1001 = None"
    by (simp add: demo_state1_eval getSession_def demo_session_def demo_chunk_def)
  have e2: "getExpectedChunkSize 2 3 2500000 1000000 = Inr 500000"
    by (simp add: getExpectedChunkSize_def js_rem_def)
  have w1: "(fst demo_state1, snd demo_state1) = demo_state1" by simp
  note T2 = handleChunk_check_order[of "fst demo_state1" "demo_chunk 2 1000000" 10 demo_service
        11 12 "snd demo_state1", THEN conjunct2, rule_format, OF g,
        THEN conjunct2, THEN conjunct2, THEN conjunct2]
  have a: "handleChunk demo_service (demo_chunk 2 1000000) 10 11 12 demo_state1
     = (Inl (TorrinError CHUNK_SIZE_MISMATCH (SizeDetails 500000 1000000)), demo_state1)"
    using T2 by (simp add: demo_chunk_def demo_session_def e2)
  note T3 = handleChunk_check_order[of "fst demo_state1" "demo_chunk 3 1000000" 10 demo_service
        11 12 "snd demo_state1", THEN conjunct2, rule_format, OF g,
        THEN conjunct2, THEN conjunct2, THEN conjunct1]
  have b: "handleChunk demo_service (demo_chunk 3 1000000) 10 11 12 demo_state1
     = (Inl (TorrinError CHUNK_OUT_OF_RANGE (IndexDetails 3 3)), demo_state1)"
    using T3 by (simp add: demo_chunk_def demo_session_def)
  note T0 = handleChunk_check_order[of "fst demo_state1" "demo_chunk 0 1000000" 1001 demo_service
        1002 1003 "snd demo_state1", THEN conjunct1, rule_format, OF g']
  have c: "handleChunk demo_service (demo_chunk 0 1000000) 1001 1002 1003 demo_state1
     = (Inl (TorrinError UPLOAD_NOT_FOUND NoDetails), demo_state1)"
    using T0 by simp
  have e0: "getExpectedChunkSize 0 3 2500000 1000000 = Inr 1000000"
    by (simp add: getExpectedChunkSize_def js_rem_def)
  have w: "drv_writeChunk (storage demo_service) demo_session 0 [] 1000000 None (snd demo_state1)
             = (None, [CallInit ''u_1'', CallWrite ''u_1'' 0])"
    by (simp add: demo_service_def newTorrinService_def recording_driver_def demo_session_def
        demo_state1_eval)
  note T4 = handleChunk_check_order[of "fst demo_state1" "demo_chunk 0 1000000" 10 demo_service
        11 12 "snd demo_state1", THEN conjunct2, rule_format, OF g,
        THEN conjunct2, THEN conjunct2, THEN conjunct2]
  have "\<exists>ses' stored stored'.
          handleChunk demo_service (demo_chunk 0 1000000) 10 11 12 demo_state1
            = (Inr (), ses', [CallInit ''u_1'', CallWrite ''u_1'' 0])
          \<and> map_of (fst demo_state1) ''u_1'' = Some stored
          \<and> map_of ses' ''u_1'' = Some stored'
          \<and> set (receivedChunks stored') = insert 0 (set (receivedChunks stored))
          \<and> status (session stored') = in_progress"
    using T4 w by (simp add: demo_chunk_def demo_session_def e0)
  then have d: "\<exists>ses' stored'.
         handleChunk demo_service (demo_chunk 0 1000000) 10 11 12 demo_state1
           = (Inr (), ses', [CallInit ''u_1'', CallWrite ''u_1'' 0])
       \<and> map_of ses' ''u_1'' = Some stored'
       \<and> set (receivedChunks stored') = {0}
       \<and> status (session stored') = in_progress"
    by (auto simp: demo_state1_eval)
  from a b c d show ?thesis by blast
qed

subsection \<open>getMissingChunks\<close>

lemma getMissingChunks_loop_filter:
  "getMissingChunks_loop n rc i acc = acc @ filter (\<lambda>j. j \<notin> set rc) [i..n - 1]"
proof (induction n rc i acc rule: getMissingChunks_loop.induct)
  case (1 n rc i acc)
  show ?case
  proof (cases "i < n")
    case True
    then have u: "[i..n - 1] = i # [i + 1..n - 1]" by (simp add: upto_rec1)
    show ?thesis
      using True "1.IH"[OF True] by (subst getMissingChunks_loop.simps) (simp add: u)
  next
    case False
    then show ?thesis by (subst getMissingChunks_loop.simps) simp
  qed
qed

lemma getMissingChunks_filter:
  "getMissingChunks n rc = filter (\<lambda>j. j \<notin> set rc) [0..n - 1]"
  by (simp add: getMissingChunks_def getMissingChunks_loop_filter)

lemma set_getMissingChunks: "set (getMissingChunks n rc) = {0..<n} - set rc"
  by (auto simp: getMissingChunks_filter)

lemma sorted_getMissingChunks: "sorted (getMissingChunks n rc)"
  by (simp add: getMissingChunks_filter sorted_wrt_filter)

lemma distinct_getMissingChunks: "distinct (getMissingChunks n rc)"
  by (simp add: getMissingChunks_filter)

lemma getMissingChunks_sorted_list:
  "getMissingChunks n rc = sorted_list_of_set ({0..<n} - set rc)"
proof (rule sorted_distinct_set_unique)
  show "sorted (getMissingChunks n rc)" by (rule sorted_getMissingChunks)
  show "distinct (getMissingChunks n rc)" by (rule distinct_getMissingChunks)
  show "sorted (sorted_list_of_set ({0..<n} - set rc))" by simp
  show "distinct (sorted_list_of_set ({0..<n} - set rc))" by simp
  show "set (getMissingChunks n rc) = set (sorted_list_of_set ({0..<n} - set rc))"
    by (simp add: set_getMissingChunks)
qed

subsection \<open>completeUpload\<close>

lemma getSession_stored:
  assumes "map_of ses uid = Some stored"
  shows "getSession ses uid now =
           (if (\<exists>e. expiresAt (session stored) = Some e \<and> e < now) then None
            else Some (session stored))"
  using assms by (auto simp: getSession_def split: option.splits)

text \<open>
  Claim C3, as amended. For every session in the store that is neither completed nor
  canceled and whose received chunks do not cover \<open>[0, totalChunks)\<close>: when the session
  is not expired (\<open>expiresAt\<close> undefined or not earlier than \<open>now\<close>), \<open>completeUpload\<close>
  fails with \<open>MISSING_CHUNKS\<close> and its details are the sorted list of the indices of
  \<open>[0, totalChunks)\<close> that are not received; when the session is expired
  (\<open>expiresAt < now\<close>), \<open>completeUpload\<close> fails with \<open>UPLOAD_NOT_FOUND\<close>. In both cases
  the store and the driver's state are returned as they were, whatever the driver:
  \<open>finalizeUpload\<close> was not run and the status of the session is unchanged.
\<close>

theorem completeUpload_missing_chunks:
  assumes "map_of ses uid = Some stored"
    and "status (session stored) \<noteq> completed" and "status (session stored) \<noteq> canceled"
    and "\<not> {0..<totalChunks (session stored)} \<subseteq> set (receivedChunks stored)"
  shows "completeUpload svc uid tGet tUpd (ses, d) =
           (Inl (if (\<exists>e. expiresAt (session stored) = Some e \<and> e < tGet)
                 then TorrinError UPLOAD_NOT_FOUND NoDetails
                 else TorrinError MISSING_CHUNKS
                        (MissingDetails
                           (sorted_list_of_set
                              ({0..<totalChunks (session stored)} - set (receivedChunks stored))))),
            ses, d)"
proof (cases "\<exists>e. expiresAt (session stored) = Some e \<and> e < tGet")
  case True
  then have "getSession ses uid tGet = None" using getSession_stored[OF assms(1)] by simp
  then show ?thesis using True by (simp add: completeUpload_def getSessionOrThrow_def)
next
  case False
  let ?s = "session stored"
  let ?m = "getMissingChunks (totalChunks ?s) (sort (receivedChunks stored))"
  have g: "getSession ses uid tGet = Some ?s" using False getSession_stored[OF assms(1)] by simp
  have "set ?m \<noteq> {}" using assms(4) by (auto simp: set_getMissingChunks)
  then have len: "0 < length ?m" by auto
  have eq: "?m = sorted_list_of_set ({0..<totalChunks ?s} - set (receivedChunks stored))"
    by (simp add: getMissingChunks_sorted_list)
  have "completeUpload svc uid tGet tUpd (ses, d) =
          (Inl (TorrinError MISSING_CHUNKS (MissingDetails ?m)), ses, d)"
    using g assms(1-3) len
    by (simp add: completeUpload_def getSessionOrThrow_def listReceivedChunks_def Let_def)
  then show ?thesis using False eq by simp
qed

lemma sorted_list_demo: "sorted_list_of_set ({0..<3} - {0, 2::int}) = [1]"
proof -
  have "{0..<3} - {0, 2::int} = {1}" by auto
  then show ?thesis by simp
qed

theorem completeUpload_missing_chunks_witness:
  "completeUpload demo_service ''u_1'' 30 31 demo_state3
     = (Inl (TorrinError MISSING_CHUNKS (MissingDetails [1])),
        [(''u_1'', \<lparr> session = demo_session \<lparr> status := in_progress, updatedAt := 21 \<rparr>,
                     receivedChunks = [0, 2] \<rparr>)],
        [CallInit ''u_1'', CallWrite ''u_1'' 0, CallWrite ''u_1'' 2])
   \<and> completeUpload demo_service ''u_1'' 1001 1002 demo_state3
     = (Inl (TorrinError UPLOAD_NOT_FOUND NoDetails),
        [(''u_1'', \<lparr> session = demo_session \<lparr> status := in_progress, updatedAt := 21 \<rparr>,
                     receivedChunks = [0, 2] \<rparr>)],
        [CallInit ''u_1'', CallWrite ''u_1'' 0, CallWrite ''u_1'' 2])"
proof -
  let ?s = "demo_session \<lparr> status := in_progress, updatedAt := 21 \<rparr>"
  let ?stored = "\<lparr> session = ?s, receivedChunks = [0, 2] \<rparr>"
  have m: "map_of [(''u_1'', ?stored)] ''u_1'' = Some ?stored" by simp
  have s1: "status (session ?stored) \<noteq> completed"
    and s2: "status (session ?stored) \<noteq> canceled" by simp_all
  have "(1::int) \<in> {0..<3}" and "(1::int) \<notin> {0, 2}" by simp_all
  then have "\<not> {0..<3} \<subseteq> {0, 2::int}" by blast
  then have gap: "\<not> {0..<totalChunks (session ?stored)} \<subseteq> set (receivedChunks ?stored)"
    by (simp add: demo_session_def)
  have t: "totalChunks ?s = 3" "expiresAt ?s = Some 1000" by (simp_all add: demo_session_def)
  have a: "completeUpload demo_service ''u_1'' 30 31 demo_state3
     = (Inl (TorrinError MISSING_CHUNKS (MissingDetails [1])),
        [(''u_1'', ?stored)],
        [CallInit ''u_1'', CallWrite ''u_1'' 0, CallWrite ''u_1'' 2])"
    using completeUpload_missing_chunks[OF m s1 s2 gap, of demo_service 30 31
        "[CallInit ''u_1'', CallWrite ''u_1'' 0, CallWrite ''u_1'' 2]"]
    by (simp add: demo_state3_eval t sorted_list_demo)
  have b: "completeUpload demo_service ''u_1'' 1001 1002 demo_state3
     = (Inl (TorrinError UPLOAD_NOT_FOUND NoDetails),
        [(''u_1'', ?stored)],
        [CallInit ''u_1'', CallWrite ''u_1'' 0, CallWrite ''u_1'' 2])"
    using completeUpload_missing_chunks[OF m s1 s2 gap, of demo_service 1001 1002
        "[CallInit ''u_1'', CallWrite ''u_1'' 0, CallWrite ''u_1'' 2]"]
    by (simp add: demo_state3_eval t)
  from a b show ?thesis by simp
qed

text \<open>
  Claim C3 as stated fails for an expired session. After chunks 0 and 2 of the
  three-chunk upload the stored session is in progress with chunk 1 missing and
  \<open>expiresAt = 1000\<close>; at time 1001 \<open>completeUpload\<close> fails with \<open>UPLOAD_NOT_FOUND\<close>, not
  with \<open>MISSING_CHUNKS\<close>.
\<close>

theorem completeUpload_expired_counterexample:
  "map_of (fst demo_state3) ''u_1''
     = Some \<lparr> session = demo_session \<lparr> status := in_progress, updatedAt := 21 \<rparr>,
              receivedChunks = [0, 2] \<rparr>
   \<and> status (demo_session \<lparr> status := in_progress, updatedAt := 21 \<rparr>) = in_progress
   \<and> totalChunks (demo_session \<lparr> status := in_progress, updatedAt := 21 \<rparr>) = 3
   \<and> \<not> {0..<3} \<subseteq> set [0, 2::int]
   \<and> completeUpload demo_service ''u_1'' 1001 1002 demo_state3
     = (Inl (TorrinError UPLOAD_NOT_FOUND NoDetails), demo_state3)"
proof -
  have "(1::int) \<in> {0..<3}" and "(1::int) \<notin> set [0, 2]" by simp_all
  then have gap: "\<not> {0..<3} \<subseteq> set [0, 2::int]" by blast
  have c: "completeUpload demo_service ''u_1'' 1001 1002 demo_state3
     = (Inl (TorrinError UPLOAD_NOT_FOUND NoDetails), demo_state3)"
    by (simp add: demo_state3_eval completeUpload_def getSessionOrThrow_def getSession_def
        demo_session_def)
  have t: "totalChunks (demo_session \<lparr> status := in_progress, updatedAt := 21 \<rparr>) = 3"
    by (simp add: demo_session_def)
  show ?thesis using gap c t by (simp add: demo_state3_eval)
qed

subsection \<open>The store invariant\<close>

lemma store_inv_empty: "store_inv []"
  by (simp add: store_inv_def)

lemma store_inv_update:
  assumes "store_inv ses" "entry_ok k v"
  shows "store_inv (AList.update k v ses)"
  using assms by (auto simp: store_inv_def distinct_update update_conv')

lemma store_inv_delete:
  assumes "store_inv ses"
  shows "store_inv (deleteSession ses k)"
  using assms by (auto simp: store_inv_def deleteSession_def distinct_delete delete_conv')

lemma store_inv_lookup:
  "store_inv ses \<Longrightarrow> map_of ses k = Some stored \<Longrightarrow> entry_ok k stored"
  by (simp add: store_inv_def)

lemma initUpload_inv:
  assumes "store_inv ses" "initUpload svc input newId now (ses, d) = (res, ses', d')"
  shows "store_inv ses'"
proof (cases "init_fileSize input \<le> 0")
  case True
  with assms show ?thesis by (simp add: initUpload_def)
next
  case False
  then have pos: "0 < init_fileSize input" by simp
  let ?cs = "normalizeChunkSize
      (Some (case desiredChunkSize input of None \<Rightarrow> defaultChunkSize svc | Some x \<Rightarrow> x))
      (init_fileSize input)"
  have cs: "0 < ?cs" using pos by (rule normalizeChunkSize_bounds(2))
  have n: "1 \<le> calculateTotalChunks (init_fileSize input) ?cs"
    using pos cs by (rule totalChunks_pos)
  obtain s where s: "createSession newId now input ?cs (Some (uploadTtlMs svc)) ses
      = (s, AList.update newId \<lparr> session = s, receivedChunks = [] \<rparr> ses)"
    and u: "uploadId s = newId"
    and t: "totalChunks s = calculateTotalChunks (init_fileSize input) ?cs"
    by (simp add: createSession_def Let_def)
  have ok: "entry_ok newId \<lparr> session = s, receivedChunks = [] \<rparr>"
    using u t n by (simp add: entry_ok_def)
  have "ses' = AList.update newId \<lparr> session = s, receivedChunks = [] \<rparr> ses"
    using assms(2) False s by (auto simp: initUpload_def Let_def split: prod.splits option.splits)
  then show ?thesis using store_inv_update[OF assms(1) ok] by simp
qed

lemma handleChunk_inv:
  assumes inv: "store_inv ses"
    and h: "handleChunk svc inp tGet tMark tUpd (ses, d) = (res, ses', d')"
  shows "store_inv ses'"
proof (cases res)
  case (Inl e)
  with h have "ses' = ses" by (simp add: handleChunk_fail_store)
  with inv show ?thesis by simp
next
  case (Inr u)
  from h Inr obtain s where g: "getSession ses (chunk_uploadId inp) tGet = Some s"
    by (auto simp: handleChunk_def getSessionOrThrow_def split: option.splits)
  then obtain stored where m: "map_of ses (chunk_uploadId inp) = Some stored"
    and ss: "session stored = s"
    using getSession_Some_stored by blast
  from h Inr g have st: "status s \<noteq> completed" "status s \<noteq> canceled"
    and ix: "0 \<le> chunk_index inp" "chunk_index inp < totalChunks s"
    by (auto simp: handleChunk_def getSessionOrThrow_def validateSessionForChunk_def
        validateChunkIndex_def split: if_splits)
  from h Inr g st ix have
    ex: "getExpectedChunkSize (chunk_index inp) (totalChunks s) (fileSize s) (chunkSize s)
               = Inr (chunk_size inp)"
    by (auto simp: handleChunk_def getSessionOrThrow_def validateSessionForChunk_def
        validateChunkIndex_def split: if_splits sum.splits)
  from h Inr g st ix ex have
    w: "drv_writeChunk (storage svc) s (chunk_index inp) (chunk_stream inp) (chunk_size inp)
              (chunk_hash inp) d = (None, d')"
    by (auto simp: handleChunk_def getSessionOrThrow_def validateSessionForChunk_def
        validateChunkIndex_def markChunkReceived_Inr[OF m] updateSession_def update_conv' Let_def
        split: if_splits sum.splits prod.splits option.splits)
  note acc = handleChunk_accept[OF g m st ix ex w, of tMark tUpd]
  have e: "entry_ok (chunk_uploadId inp) stored" using inv m by (rule store_inv_lookup)
  have ok: "entry_ok (chunk_uploadId inp)
              \<lparr> session = (session stored) \<lparr> status := x, updatedAt := t \<rparr>,
                receivedChunks = Set_add (chunk_index inp) (receivedChunks stored) \<rparr>" for x t
    using e ix ss by (auto simp: entry_ok_def set_Set_add distinct_Set_add)
  have ok': "entry_ok (chunk_uploadId inp)
              \<lparr> session = (session stored) \<lparr> updatedAt := t \<rparr>,
                receivedChunks = Set_add (chunk_index inp) (receivedChunks stored) \<rparr>" for t
    using e ix ss by (auto simp: entry_ok_def set_Set_add distinct_Set_add)
  show ?thesis
  proof (cases "status s = pending")
    case True
    with acc h have "ses' = AList.update (chunk_uploadId inp)
                   \<lparr> session = (session stored) \<lparr> status := in_progress, updatedAt := tUpd \<rparr>,
                     receivedChunks = Set_add (chunk_index inp) (receivedChunks stored) \<rparr> ses"
      by simp
    then show ?thesis using store_inv_update[OF inv ok] by simp
  next
    case False
    with acc h have "ses' = AList.update (chunk_uploadId inp)
                   \<lparr> session = (session stored) \<lparr> updatedAt := tMark \<rparr>,
                     receivedChunks = Set_add (chunk_index inp) (receivedChunks stored) \<rparr> ses"
      by simp
    then show ?thesis using store_inv_update[OF inv ok'] by simp
  qed
qed

lemma updateSession_status_inv:
  assumes inv: "store_inv ses"
    and u: "updateSession ses uid (\<lambda>x. x \<lparr> status := st \<rparr>) t = Inr (s', ses')"
  shows "store_inv ses'"
proof -
  from u obtain stored where m: "map_of ses uid = Some stored"
    by (auto simp: updateSession_def split: option.splits)
  have e: "entry_ok uid stored" using inv m by (rule store_inv_lookup)
  have ok: "entry_ok uid (stored \<lparr> session := (session stored) \<lparr> status := st, updatedAt := t \<rparr> \<rparr>)"
    using e by (simp add: entry_ok_def)
  from u m have "ses' = AList.update uid
      (stored \<lparr> session := (session stored) \<lparr> status := st, updatedAt := t \<rparr> \<rparr>) ses"
    by (auto simp: updateSession_def Let_def)
  then show ?thesis using store_inv_update[OF inv ok] by simp
qed

lemma completeUpload_inv:
  assumes inv: "store_inv ses"
    and h: "completeUpload svc uid tGet tUpd (ses, d) = (res, ses', d')"
  shows "store_inv ses'"
proof -
  from h have "ses' = ses
      \<or> (\<exists>s'. updateSession ses uid (\<lambda>x. x \<lparr> status := completed \<rparr>) tUpd = Inr (s', ses'))"
    by (auto simp: completeUpload_def Let_def
        split: sum.splits if_splits prod.splits)
  then show ?thesis using inv updateSession_status_inv by blast
qed

lemma abortUpload_inv:
  assumes inv: "store_inv ses"
    and h: "abortUpload svc uid tGet tUpd (ses, d) = (res, ses', d')"
  shows "store_inv ses'"
proof -
  from h have "ses' = ses
      \<or> (\<exists>s'. updateSession ses uid (\<lambda>x. x \<lparr> status := canceled \<rparr>) tUpd = Inr (s', ses'))"
    by (auto simp: abortUpload_def Let_def
        split: sum.splits if_splits prod.splits option.splits)
  then show ?thesis using inv updateSession_status_inv by blast
qed

lemma cleanupExpired_step_inv:
  assumes "store_inv ses" "cleanupExpired_step svc s (r, ses, d) = (r', ses', d')"
  shows "store_inv ses'"
proof -
  from assms(2) have "ses' = ses \<or> ses' = deleteSession ses (uploadId s)"
    by (auto simp: cleanupExpired_step_def split: if_splits prod.splits option.splits)
  then show ?thesis using assms(1) store_inv_delete by auto
qed

lemma cleanupExpired_fold_inv:
  "store_inv ses \<Longrightarrow> fold (cleanupExpired_step svc) xs (r, ses, d) = (r', ses', d')
     \<Longrightarrow> store_inv ses'"
proof (induction xs arbitrary: r ses d)
  case Nil
  then show ?case by simp
next
  case (Cons x xs)
  obtain r1 ses1 d1 where st: "cleanupExpired_step svc x (r, ses, d) = (r1, ses1, d1)"
    by (metis prod_cases3)
  have "store_inv ses1" using Cons.prems(1) st by (rule cleanupExpired_step_inv)
  moreover have "fold (cleanupExpired_step svc) xs (r1, ses1, d1) = (r', ses', d')"
    using Cons.prems(2) st by simp
  ultimately show ?case by (rule Cons.IH)
qed

lemma cleanupStale_step_inv:
  assumes "store_inv ses" "cleanupStale_step svc a n s (r, ses, d) = (r', ses', d')"
  shows "store_inv ses'"
proof -
  from assms(2) have "ses' = ses \<or> ses' = deleteSession ses (uploadId s)"
    by (auto simp: cleanupStale_step_def Let_def split: if_splits prod.splits option.splits)
  then show ?thesis using assms(1) store_inv_delete by auto
qed

lemma cleanupStale_fold_inv:
  "store_inv ses \<Longrightarrow> fold (cleanupStale_step svc a n) xs (r, ses, d) = (r', ses', d')
     \<Longrightarrow> store_inv ses'"
proof (induction xs arbitrary: r ses d)
  case Nil
  then show ?case by simp
next
  case (Cons x xs)
  obtain r1 ses1 d1 where st: "cleanupStale_step svc a n x (r, ses, d) = (r1, ses1, d1)"
    by (metis prod_cases3)
  have "store_inv ses1" using Cons.prems(1) st by (rule cleanupStale_step_inv)
  moreover have "fold (cleanupStale_step svc a n) xs (r1, ses1, d1) = (r', ses', d')"
    using Cons.prems(2) st by simp
  ultimately show ?case by (rule Cons.IH)
qed

lemma reachable_inv: "reachable svc w \<Longrightarrow> store_inv (fst w)"
proof (induction rule: reachable.induct)
  case (r_start d0)
  show ?case by (simp add: store_inv_empty)
next
  case (r_init w input newId now res w')
  then show ?case using initUpload_inv[of "fst w" svc input newId now "snd w" res "fst w'" "snd w'"]
    by simp
next
  case (r_chunk w input t1 t2 t3 res w')
  then show ?case
    using handleChunk_inv[of "fst w" svc input t1 t2 t3 "snd w" res "fst w'" "snd w'"] by simp
next
  case (r_complete w uid t1 t2 res w')
  then show ?case
    using completeUpload_inv[of "fst w" svc uid t1 t2 "snd w" res "fst w'" "snd w'"] by simp
next
  case (r_abort w uid t1 t2 res w')
  then show ?case
    using abortUpload_inv[of "fst w" svc uid t1 t2 "snd w" res "fst w'" "snd w'"] by simp
next
  case (r_expired w now cres w')
  then show ?case
    using cleanupExpired_fold_inv[of "fst w" svc "listExpiredSessions (fst w) now"
        "\<lparr> cleaned = 0, errors = [] \<rparr>" "snd w" cres "fst w'" "snd w'"]
    by (simp add: cleanupExpiredUploads_def split: prod.splits)
next
  case (r_stale w maxAge now cres w')
  then show ?case
    using cleanupStale_fold_inv[of "fst w" svc maxAge now "listAllSessions (fst w)"
        "\<lparr> cleaned = 0, errors = [] \<rparr>" "snd w" cres "fst w'" "snd w'"]
    by (simp add: cleanupStaleUploads_def split: prod.splits)
qed


subsection \<open>getStatus\<close>

lemma getStatus_Inr:
  assumes "getStatus ses uid now = Inr st"
  shows "\<exists>stored. map_of ses uid = Some stored
           \<and> st_totalChunks st = totalChunks (session stored)
           \<and> st_status st = status (session stored)
           \<and> st_receivedChunks st = sort (receivedChunks stored)
           \<and> st_missingChunks st
               = getMissingChunks (totalChunks (session stored)) (sort (receivedChunks stored))"
proof -
  from assms obtain s where g: "getSession ses uid now = Some s"
    by (auto simp: getStatus_def getSessionOrThrow_def split: option.splits)
  then obtain stored where m: "map_of ses uid = Some stored" and ss: "session stored = s"
    using getSession_Some_stored by blast
  from assms g m ss show ?thesis
    by (auto simp: getStatus_def getSessionOrThrow_def listReceivedChunks_def)
qed

lemma received_length_le:
  assumes "distinct xs" "set xs \<subseteq> {0..<n}" "(0::int) \<le> n"
  shows "int (length xs) \<le> n"
proof -
  have "length xs = card (set xs)" using assms(1) by (simp add: distinct_card)
  also have "\<dots> \<le> card {0..<n}" by (rule card_mono) (use assms(2) in simp_all)
  also have "\<dots> = nat n" by simp
  finally show ?thesis using assms(3) by simp
qed

text \<open>
  Claim C4. In every state the service reaches, the result of \<open>getStatus\<close> has
  \<open>receivedChunks\<close> and \<open>missingChunks\<close> sorted in ascending order (and without
  repetition), disjoint, with union exactly \<open>[0, totalChunks)\<close>, and no more received
  chunks than \<open>totalChunks\<close>.
\<close>

theorem getStatus_partition:
  assumes "reachable svc (ses, d)" and "getStatus ses uid now = Inr st"
  shows "sorted (st_receivedChunks st) \<and> distinct (st_receivedChunks st)
       \<and> sorted (st_missingChunks st) \<and> distinct (st_missingChunks st)
       \<and> set (st_receivedChunks st) \<inter> set (st_missingChunks st) = {}
       \<and> set (st_receivedChunks st) \<union> set (st_missingChunks st) = {0..<st_totalChunks st}
       \<and> int (length (st_receivedChunks st)) \<le> st_totalChunks st"
proof -
  from getStatus_Inr[OF assms(2)] obtain stored where m: "map_of ses uid = Some stored"
    and t: "st_totalChunks st = totalChunks (session stored)"
    and r: "st_receivedChunks st = sort (receivedChunks stored)"
    and mi: "st_missingChunks st
               = getMissingChunks (totalChunks (session stored)) (sort (receivedChunks stored))"
    by blast
  have "store_inv ses" using reachable_inv[OF assms(1)] by simp
  then have e: "entry_ok uid stored" using m by (rule store_inv_lookup)
  then have n: "1 \<le> totalChunks (session stored)"
    and dis: "distinct (receivedChunks stored)"
    and sub: "set (receivedChunks stored) \<subseteq> {0..<totalChunks (session stored)}"
    by (simp_all add: entry_ok_def)
  have a: "sorted (st_receivedChunks st) \<and> distinct (st_receivedChunks st)"
    using r dis by simp
  have b: "sorted (st_missingChunks st) \<and> distinct (st_missingChunks st)"
    using mi by (simp add: sorted_getMissingChunks distinct_getMissingChunks)
  have c: "set (st_receivedChunks st) \<inter> set (st_missingChunks st) = {}"
    using r mi by (auto simp: set_getMissingChunks)
  have u: "set (st_receivedChunks st) \<union> set (st_missingChunks st) = {0..<st_totalChunks st}"
    using r mi t sub by (auto simp: set_getMissingChunks)
  have l: "int (length (st_receivedChunks st)) \<le> st_totalChunks st"
    using received_length_le[OF dis sub] n r t by simp
  from a b c u l show ?thesis by blast
qed

lemma demo_reachable: "reachable demo_service demo_state3"
proof -
  have r0: "reachable demo_service ([], [])" by (rule r_start)
  have e1: "initUpload demo_service demo_input ''u_1'' 0 ([], []) = (Inr demo_session, demo_state1)"
    by (simp add: demo_init_eval demo_state1_eval)
  have e2: "handleChunk demo_service (demo_chunk 0 1000000) 10 11 12 demo_state1
              = (Inr (), demo_state2)"
    by (simp add: demo_state2_eval) (simp add: demo_state1_eval handleChunk_eval_defs)
  have e3: "handleChunk demo_service (demo_chunk 2 500000) 20 21 22 demo_state2
              = (Inr (), demo_state3)"
    by (simp add: demo_state3_eval) (simp add: demo_state2_eval handleChunk_eval_defs)
  from r0 e1 have "reachable demo_service demo_state1" by (rule r_init)
  then have "reachable demo_service demo_state2" using e2 by (rule r_chunk)
  then show ?thesis using e3 by (rule r_chunk)
qed

lemma demo_missing: "getMissingChunks 3 [0, 2] = [1]"
  by code_simp

lemma demo_getStatus:
  "getStatus (fst demo_state3) ''u_1'' 30 =
     Inr \<lparr> st_uploadId = ''u_1'', st_status = in_progress, st_fileName = Some ''a.bin'',
           st_fileSize = 2500000, st_chunkSize = 1000000, st_totalChunks = 3,
           st_receivedChunks = [0, 2], st_missingChunks = [1] \<rparr>"
  by (simp add: demo_state3_eval getStatus_def getSessionOrThrow_def getSession_def
      listReceivedChunks_def demo_session_def demo_missing)

theorem getStatus_partition_witness:
  "reachable demo_service demo_state3
   \<and> getStatus (fst demo_state3) ''u_1'' 30 =
       Inr \<lparr> st_uploadId = ''u_1'', st_status = in_progress, st_fileName = Some ''a.bin'',
             st_fileSize = 2500000, st_chunkSize = 1000000, st_totalChunks = 3,
             st_receivedChunks = [0, 2], st_missingChunks = [1] \<rparr>
   \<and> sorted [0, 2::int] \<and> sorted [1::int]
   \<and> set [0, 2::int] \<inter> set [1] = {}
   \<and> set [0, 2::int] \<union> set [1] = {0..<3}
   \<and> int (length [0, 2::int]) \<le> 3"
proof -
  have r: "reachable demo_service (fst demo_state3, snd demo_state3)"
    using demo_reachable by simp
  from getStatus_partition[OF r demo_getStatus] demo_reachable demo_getStatus
  show ?thesis by simp
qed

subsection \<open>Cleanup of expired uploads\<close>

lemma demo_state4_eval:
  "demo_state4 =
     ([(''u_1'', \<lparr> session = demo_session \<lparr> status := in_progress, updatedAt := 26 \<rparr>,
                  receivedChunks = [0, 2, 1] \<rparr>)],
      [CallInit ''u_1'', CallWrite ''u_1'' 0, CallWrite ''u_1'' 2, CallWrite ''u_1'' 1])"
  by (simp add: demo_state4_def demo_state3_eval handleChunk_eval_defs)

lemma demo_missing_none: "getMissingChunks 3 [0, 1, 2] = []"
  by code_simp

lemma demo_complete_eval:
  "completeUpload demo_service ''u_1'' 30 31 demo_state4 =
     (Inr \<lparr> res_uploadId = ''u_1'', res_status = completed, res_fileName = Some ''a.bin'',
            res_fileSize = 2500000, res_location = LocalLocation ''u_1'', res_metadata = None \<rparr>,
      [(''u_1'', \<lparr> session = demo_session \<lparr> status := completed, updatedAt := 31 \<rparr>,
                   receivedChunks = [0, 2, 1] \<rparr>)],
      [CallInit ''u_1'', CallWrite ''u_1'' 0, CallWrite ''u_1'' 2, CallWrite ''u_1'' 1,
       CallFinalize ''u_1''])"
  by (simp add: demo_state4_eval completeUpload_def getSessionOrThrow_def getSession_def
      listReceivedChunks_def updateSession_def demo_service_def newTorrinService_def
      recording_driver_def demo_session_def demo_missing_none Let_def)

lemma demo_state5_eval:
  "demo_state5 =
     ([(''u_1'', \<lparr> session = demo_session \<lparr> status := completed, updatedAt := 31 \<rparr>,
                  receivedChunks = [0, 2, 1] \<rparr>)],
      [CallInit ''u_1'', CallWrite ''u_1'' 0, CallWrite ''u_1'' 2, CallWrite ''u_1'' 1,
       CallFinalize ''u_1''])"
  by (simp add: demo_state5_def demo_complete_eval)

lemma demo_reachable5: "reachable demo_service demo_state5"
proof -
  have e4: "handleChunk demo_service (demo_chunk 1 1000000) 25 26 27 demo_state3
              = (Inr (), demo_state4)"
    by (simp add: demo_state4_eval) (simp add: demo_state3_eval handleChunk_eval_defs)
  have e5: "completeUpload demo_service ''u_1'' 30 31 demo_state4
              = (Inr \<lparr> res_uploadId = ''u_1'', res_status = completed,
                       res_fileName = Some ''a.bin'', res_fileSize = 2500000,
                       res_location = LocalLocation ''u_1'', res_metadata = None \<rparr>, demo_state5)"
    by (simp add: demo_complete_eval demo_state5_eval)
  have "reachable demo_service demo_state4" using demo_reachable e4 by (rule r_chunk)
  then show ?thesis using e5 by (rule r_complete)
qed

lemma demo_cleanup_eval:
  "cleanupExpiredUploads demo_service 2000 demo_state5 =
     (\<lparr> cleaned = 1, errors = [] \<rparr>, [], snd demo_state5)"
  by (simp add: demo_state5_eval cleanupExpiredUploads_def listExpiredSessions_def isExpired_def
      cleanupExpired_step_def deleteSession_def demo_session_def)

text \<open>
  Claim C5 as stated fails: after the three-chunk upload has been completed its session
  still carries \<open>expiresAt = 1000\<close>; at time 2000 \<open>listExpiredSessions\<close> returns this
  completed session, and the sweep removes its record (without a driver call: the
  driver's log is unchanged).
\<close>

theorem cleanup_deletes_completed_counterexample:
  "reachable demo_service demo_state5
   \<and> map_of (fst demo_state5) ''u_1''
       = Some \<lparr> session = demo_session \<lparr> status := completed, updatedAt := 31 \<rparr>,
                receivedChunks = [0, 2, 1] \<rparr>
   \<and> status (demo_session \<lparr> status := completed, updatedAt := 31 \<rparr>) = completed
   \<and> listExpiredSessions (fst demo_state5) 2000
       = [demo_session \<lparr> status := completed, updatedAt := 31 \<rparr>]
   \<and> cleanupExpiredUploads demo_service 2000 demo_state5
       = (\<lparr> cleaned = 1, errors = [] \<rparr>, [], snd demo_state5)
   \<and> map_of (fst (snd (cleanupExpiredUploads demo_service 2000 demo_state5))) ''u_1'' = None"
proof -
  have a: "map_of (fst demo_state5) ''u_1''
       = Some \<lparr> session = demo_session \<lparr> status := completed, updatedAt := 31 \<rparr>,
                receivedChunks = [0, 2, 1] \<rparr>"
    by (simp add: demo_state5_eval)
  have b: "listExpiredSessions (fst demo_state5) 2000
       = [demo_session \<lparr> status := completed, updatedAt := 31 \<rparr>]"
    by (simp add: demo_state5_eval listExpiredSessions_def isExpired_def demo_session_def)
  show ?thesis using demo_reachable5 a b demo_cleanup_eval by simp
qed

lemma cleanupExpired_step_cases:
  assumes "cleanupExpired_step svc s (r, ses, d) = (r1, ses1, d1)"
  shows "d1 = (if status s \<noteq> completed then snd (drv_abortUpload (storage svc) s d) else d)"
    and "ses1 = ses \<or> ses1 = deleteSession ses (uploadId s)"
    and "status s = completed \<Longrightarrow> ses1 = deleteSession ses (uploadId s)"
  using assms
  by (auto simp: cleanupExpired_step_def split: if_splits prod.splits option.splits)

lemma cleanupExpired_fold_effect:
  "fold (cleanupExpired_step svc) xs (r, ses, d) = (r', ses', d') \<Longrightarrow>
     d' = fold (\<lambda>s x. snd (drv_abortUpload (storage svc) s x))
            (filter (\<lambda>s. status s \<noteq> completed) xs) d
     \<and> (\<forall>k. map_of ses' k = None \<or> map_of ses' k = map_of ses k)
     \<and> (\<forall>k. k \<notin> uploadId ` set xs \<longrightarrow> map_of ses' k = map_of ses k)
     \<and> (\<forall>s\<in>set xs. status s = completed \<longrightarrow> map_of ses' (uploadId s) = None)"
proof (induction xs arbitrary: r ses d)
  case Nil
  then show ?case by simp
next
  case (Cons x xs)
  obtain r1 ses1 d1 where st: "cleanupExpired_step svc x (r, ses, d) = (r1, ses1, d1)"
    by (metis prod_cases3)
  note c = cleanupExpired_step_cases[OF st]
  have f: "fold (cleanupExpired_step svc) xs (r1, ses1, d1) = (r', ses', d')"
    using Cons.prems st by simp
  note IH = Cons.IH[OF f]
  have m1: "map_of ses1 k = None \<or> map_of ses1 k = map_of ses k" for k
    using c(2) by (auto simp: deleteSession_def delete_conv')
  have m2: "k \<noteq> uploadId x \<Longrightarrow> map_of ses1 k = map_of ses k" for k
    using c(2) by (auto simp: deleteSession_def delete_conv')
  have m3: "status x = completed \<Longrightarrow> map_of ses1 (uploadId x) = None"
    using c(3) by (simp add: deleteSession_def delete_conv')
  have g1: "d' = fold (\<lambda>s x. snd (drv_abortUpload (storage svc) s x))
            (filter (\<lambda>s. status s \<noteq> completed) (x # xs)) d"
    using IH c(1) by simp
  have g2: "\<forall>k. map_of ses' k = None \<or> map_of ses' k = map_of ses k"
    using IH m1 by metis
  have g3: "\<forall>k. k \<notin> uploadId ` set (x # xs) \<longrightarrow> map_of ses' k = map_of ses k"
    using IH m2 by auto
  have g4: "\<forall>s\<in>set (x # xs). status s = completed \<longrightarrow> map_of ses' (uploadId s) = None"
  proof (intro ballI impI)
    fix s assume s: "s \<in> set (x # xs)" and co: "status s = completed"
    show "map_of ses' (uploadId s) = None"
    proof (cases "s \<in> set xs")
      case True
      then show ?thesis using IH co by blast
    next
      case False
      then have "s = x" using s by simp
      then have "map_of ses1 (uploadId s) = None" using m3 co by simp
      then show ?thesis using IH by metis
    qed
  qed
  from g1 g2 g3 g4 show ?case by blast
qed

lemma listExpired_member:
  "s \<in> set (listExpiredSessions ses now)
     \<longleftrightarrow> (\<exists>k stored. (k, stored) \<in> set ses \<and> session stored = s \<and> isExpired now stored)"
  by (force simp: listExpiredSessions_def)

text \<open>
  Claim C5, as amended. With the in-memory store, in every state the service reaches:
  \<open>listExpiredSessions\<close> returns a stored session exactly when its \<open>expiresAt\<close> is
  defined and earlier than \<open>now\<close>, whatever its status, so completed sessions are
  returned too; a sweep of \<open>cleanupExpiredUploads\<close> calls the driver's \<open>abortUpload\<close>
  for the expired sessions that are not completed and for no other, so never for a
  completed upload; and the record of a completed upload is removed by the sweep when
  the upload is expired and kept when it is not.
\<close>

theorem cleanupExpired_completed:
  assumes "reachable svc (ses, d)"
    and "cleanupExpiredUploads svc now (ses, d) = (res, ses', d')"
  shows "(\<forall>uid stored. map_of ses uid = Some stored \<longrightarrow>
            (session stored \<in> set (listExpiredSessions ses now)
               \<longleftrightarrow> (\<exists>e. expiresAt (session stored) = Some e \<and> e < now)))
       \<and> d' = fold (\<lambda>s x. snd (drv_abortUpload (storage svc) s x))
                 (filter (\<lambda>s. status s \<noteq> completed) (listExpiredSessions ses now)) d
       \<and> (\<forall>uid stored. map_of ses uid = Some stored \<and> status (session stored) = completed \<longrightarrow>
            map_of ses' uid = (if isExpired now stored then None else Some stored))"
proof -
  have inv: "store_inv ses" using reachable_inv[OF assms(1)] by simp
  then have dist: "distinct (map fst ses)" by (simp add: store_inv_def)
  have f: "fold (cleanupExpired_step svc) (listExpiredSessions ses now)
             (\<lparr> cleaned = 0, errors = [] \<rparr>, ses, d) = (res, ses', d')"
    using assms(2) by (simp add: cleanupExpiredUploads_def)
  note eff = cleanupExpired_fold_effect[OF f]
  have exp_iff: "isExpired now stored \<longleftrightarrow> (\<exists>e. expiresAt (session stored) = Some e \<and> e < now)"
    for stored
    by (auto simp: isExpired_def split: option.splits)
  have p1: "\<forall>uid stored. map_of ses uid = Some stored \<longrightarrow>
            (session stored \<in> set (listExpiredSessions ses now)
               \<longleftrightarrow> (\<exists>e. expiresAt (session stored) = Some e \<and> e < now))"
  proof (intro allI impI)
    fix uid stored assume m: "map_of ses uid = Some stored"
    then have mem: "(uid, stored) \<in> set ses" by (rule map_of_SomeD)
    show "session stored \<in> set (listExpiredSessions ses now)
               \<longleftrightarrow> (\<exists>e. expiresAt (session stored) = Some e \<and> e < now)"
    proof
      assume "session stored \<in> set (listExpiredSessions ses now)"
      then obtain k2 stored2 where "session stored2 = session stored" "isExpired now stored2"
        unfolding listExpired_member by blast
      then show "\<exists>e. expiresAt (session stored) = Some e \<and> e < now"
        using exp_iff[of stored2] by simp
    next
      assume "\<exists>e. expiresAt (session stored) = Some e \<and> e < now"
      then have "isExpired now stored" using exp_iff by simp
      then show "session stored \<in> set (listExpiredSessions ses now)"
        unfolding listExpired_member using mem by blast
    qed
  qed
  have p3: "\<forall>uid stored. map_of ses uid = Some stored \<and> status (session stored) = completed \<longrightarrow>
            map_of ses' uid = (if isExpired now stored then None else Some stored)"
  proof (intro allI impI)
    fix uid stored
    assume a: "map_of ses uid = Some stored \<and> status (session stored) = completed"
    then have m: "map_of ses uid = Some stored" and co: "status (session stored) = completed"
      by simp_all
    have key: "uploadId (session stored) = uid"
      using store_inv_lookup[OF inv m] by (simp add: entry_ok_def)
    show "map_of ses' uid = (if isExpired now stored then None else Some stored)"
    proof (cases "isExpired now stored")
      case True
      then have "session stored \<in> set (listExpiredSessions ses now)"
        using p1 m exp_iff by blast
      then have "map_of ses' (uploadId (session stored)) = None" using eff co by blast
      then show ?thesis using True key by simp
    next
      case False
      have "uid \<notin> uploadId ` set (listExpiredSessions ses now)"
      proof
        assume "uid \<in> uploadId ` set (listExpiredSessions ses now)"
        then obtain s where s: "s \<in> set (listExpiredSessions ses now)" and u: "uploadId s = uid"
          by blast
        then obtain k2 stored2 where mem2: "(k2, stored2) \<in> set ses"
          and s2: "session stored2 = s" and e2: "isExpired now stored2"
          unfolding listExpired_member by blast
        have m2: "map_of ses k2 = Some stored2" using dist mem2 by simp
        have "uploadId (session stored2) = k2"
          using store_inv_lookup[OF inv m2] by (simp add: entry_ok_def)
        then have "k2 = uid" using s2 u by simp
        then have "stored2 = stored" using m m2 by simp
        then show False using e2 False by simp
      qed
      then have "map_of ses' uid = map_of ses uid" using eff by blast
      then show ?thesis using False m by simp
    qed
  qed
  from p1 eff p3 show ?thesis by blast
qed

theorem cleanupExpired_completed_witness:
  "reachable demo_service demo_state5
   \<and> cleanupExpiredUploads demo_service 500 demo_state5
       = (\<lparr> cleaned = 0, errors = [] \<rparr>, demo_state5)
   \<and> map_of (fst demo_state5) ''u_1''
       = Some \<lparr> session = demo_session \<lparr> status := completed, updatedAt := 31 \<rparr>,
                receivedChunks = [0, 2, 1] \<rparr>
   \<and> demo_session \<lparr> status := completed, updatedAt := 31 \<rparr>
        \<notin> set (listExpiredSessions (fst demo_state5) 500)
   \<and> map_of (fst (snd (cleanupExpiredUploads demo_service 500 demo_state5))) ''u_1''
       = Some \<lparr> session = demo_session \<lparr> status := completed, updatedAt := 31 \<rparr>,
                receivedChunks = [0, 2, 1] \<rparr>"
proof -
  let ?stored = "\<lparr> session = demo_session \<lparr> status := completed, updatedAt := 31 \<rparr>,
                receivedChunks = [0, 2, 1] \<rparr>"
  have r: "reachable demo_service (fst demo_state5, snd demo_state5)"
    using demo_reachable5 by simp
  have c: "cleanupExpiredUploads demo_service 500 (fst demo_state5, snd demo_state5)
       = (\<lparr> cleaned = 0, errors = [] \<rparr>, fst demo_state5, snd demo_state5)"
    by (simp add: demo_state5_eval cleanupExpiredUploads_def listExpiredSessions_def
        isExpired_def demo_session_def)
  have m: "map_of (fst demo_state5) ''u_1'' = Some ?stored"
    by (simp add: demo_state5_eval)
  have ne: "\<not> isExpired 500 ?stored" "status (session ?stored) = completed"
    "expiresAt (session ?stored) = Some 1000"
    by (simp_all add: isExpired_def demo_session_def)
  note T = cleanupExpired_completed[OF r c]
  from T have t1: "session ?stored \<in> set (listExpiredSessions (fst demo_state5) 500)
               \<longleftrightarrow> (\<exists>e. expiresAt (session ?stored) = Some e \<and> e < 500)"
    using m by blast
  from T have t3: "map_of (fst demo_state5) ''u_1''
       = (if isExpired 500 ?stored then None else Some ?stored)"
    using m ne(2) by blast
  show ?thesis using demo_reachable5 c m t1 t3 ne by simp
qed

section \<open>The client's retry\<close>
















section \<open>The local driver's chunk order\<close>

lemma name_999999: "chunkFileName 999999 = ''chunk_999999''"
  by (simp add: chunkFileName_def padStart_def toString_def digits.simps digit_char_def)

lemma name_1000000: "chunkFileName 1000000 = ''chunk_1000000''"
  by (simp add: chunkFileName_def padStart_def toString_def digits.simps digit_char_def)

lemma names_out_of_order: "chunkFileName 1000000 < chunkFileName 999999"
  unfolding name_999999 name_1000000 by simp

lemma staged_fs_eval:
  "staged_fs = \<lparr> tempDirs = [(''u_9'', [(''chunk_999999'', ''a''), (''chunk_1000000'', ''b'')])],
                 finalFiles = [] \<rparr>"
  by (simp add: staged_fs_def local_initUpload_def local_writeChunk_def big_session_def
      name_999999 name_1000000)

lemma sort_two: "sort [''chunk_999999'', ''chunk_1000000''] = [''chunk_1000000'', ''chunk_999999'']"
  by simp

text \<open>
  Claim C7 at the failing input. For the chunks 999999 and 1000000 of one upload the
  staged names are \<open>chunk_999999\<close> and \<open>chunk_1000000\<close>; the second sorts before the
  first, and \<open>finalizeUpload\<close> writes the content of chunk 1000000 before that of
  chunk 999999.
\<close>

theorem finalize_order_at_million:
  "chunkFileName 999999 = ''chunk_999999''
   \<and> chunkFileName 1000000 = ''chunk_1000000''
   \<and> chunkFileName 1000000 < chunkFileName 999999
   \<and> staged_fs = \<lparr> tempDirs = [(''u_9'', [(chunkFileName 999999, ''a''),
                                           (chunkFileName 1000000, ''b'')])],
                    finalFiles = [] \<rparr>
   \<and> local_finalizeUpload local_opts big_session staged_fs =
       (Inr (LocalLocation ''uploads/u_9''),
        \<lparr> tempDirs = [], finalFiles = [(''uploads/u_9'', ''ba'')] \<rparr>)"
proof -
  have "local_finalizeUpload local_opts big_session staged_fs =
       (Inr (LocalLocation ''uploads/u_9''),
        \<lparr> tempDirs = [], finalFiles = [(''uploads/u_9'', ''ba'')] \<rparr>)"
    by (simp add: staged_fs_eval local_finalizeUpload_def big_session_def local_opts_def
      getFinalPath_def join_def normalize_def sort_two readFile_def Let_def)
  then show ?thesis
    using names_out_of_order name_999999 name_1000000 staged_fs_eval by simp
qed

subsection \<open>Below a million chunks the names sort by index\<close>

lemma digit_char_code: "d < 10 \<Longrightarrow> of_char (digit_char d) = 48 + d"
proof -
  assume "d < 10"
  then have "d = 0 \<or> d = 1 \<or> d = 2 \<or> d = 3 \<or> d = 4 \<or> d = 5 \<or> d = 6 \<or> d = 7 \<or> d = 8 \<or> d = 9"
    by arith
  then show ?thesis by (auto simp: digit_char_def)
qed

lemma digit_char_mono: "a < b \<Longrightarrow> b < 10 \<Longrightarrow> digit_char a < digit_char b"
  by (simp add: less_char_def digit_char_code)

lemma digit_char_zero: "digit_char 0 = CHR ''0''"
  by (simp add: digit_char_def)

lemma length_digits: "0 < w \<Longrightarrow> n < 10 ^ w \<Longrightarrow> length (digits n) \<le> w"
proof (induction w arbitrary: n)
  case 0
  then show ?case by simp
next
  case (Suc w)
  show ?case
  proof (cases "n < 10")
    case True
    then show ?thesis by (subst digits.simps) simp
  next
    case False
    then have w: "0 < w" using Suc.prems(2) by (cases w) auto
    have "n div 10 < 10 ^ w" using Suc.prems(2) by (simp add: less_mult_imp_div_less mult.commute)
    then have "length (digits (n div 10)) \<le> w" using Suc.IH w by simp
    then show ?thesis using False by (subst digits.simps) simp
  qed
qed

lemma padStart_digits_step:
  assumes "0 < w" "n < 10 ^ Suc w"
  shows "padStart (Suc w) (CHR ''0'') (digits n)
           = padStart w (CHR ''0'') (digits (n div 10)) @ [digit_char (n mod 10)]"
proof (cases "n < 10")
  case True
  then have d: "digits n = [digit_char n]" "digits (n div 10) = [CHR ''0'']"
    by (subst digits.simps, simp)+ (simp add: digit_char_zero)
  have "replicate w (CHR ''0'') = replicate (w - 1) (CHR ''0'') @ [CHR ''0'']"
    using assms(1) by (cases w) (simp_all add: replicate_append_same)
  then show ?thesis using True d by (simp add: padStart_def)
next
  case False
  have lt: "n div 10 < 10 ^ w" using assms(2) by (simp add: less_mult_imp_div_less mult.commute)
  have len: "length (digits (n div 10)) \<le> w" using length_digits[OF assms(1) lt] .
  have d: "digits n = digits (n div 10) @ [digit_char (n mod 10)]"
    using False by (subst digits.simps) simp
  show ?thesis using len by (simp add: d padStart_def Suc_diff_le)
qed

lemma length_padStart_digits:
  "0 < w \<Longrightarrow> n < 10 ^ w \<Longrightarrow> length (padStart w (CHR ''0'') (digits n)) = w"
  using length_digits[of w n] by (simp add: padStart_def)

lemma padStart_digits_mono:
  "0 < w \<Longrightarrow> n < m \<Longrightarrow> m < 10 ^ w
     \<Longrightarrow> padStart w (CHR ''0'') (digits n) < padStart w (CHR ''0'') (digits m)"
proof (induction w arbitrary: n m)
  case 0
  then show ?case by simp
next
  case (Suc w)
  show ?case
  proof (cases "w = 0")
    case True
    then have m: "m < 10" and n: "n < 10" using Suc.prems by simp_all
    have "digits n = [digit_char n]" "digits m = [digit_char m]"
      using m n by (subst digits.simps, simp)+
    then show ?thesis
      using True digit_char_mono[OF Suc.prems(2) m]
      by (simp add: padStart_def list_less_def)
  next
    case False
    then have w: "0 < w" by simp
    have nlt: "n < 10 ^ Suc w" using Suc.prems by simp
    let ?pn = "padStart w (CHR ''0'') (digits (n div 10))"
    let ?pm = "padStart w (CHR ''0'') (digits (m div 10))"
    have dn: "n div 10 < 10 ^ w" using nlt by (simp add: less_mult_imp_div_less mult.commute)
    have dm: "m div 10 < 10 ^ w"
      using Suc.prems(3) by (simp add: less_mult_imp_div_less mult.commute)
    have sn: "padStart (Suc w) (CHR ''0'') (digits n) = ?pn @ [digit_char (n mod 10)]"
      using w nlt by (rule padStart_digits_step)
    have sm: "padStart (Suc w) (CHR ''0'') (digits m) = ?pm @ [digit_char (m mod 10)]"
      using w Suc.prems(3) by (rule padStart_digits_step)
    have len: "length ?pn = w" "length ?pm = w"
      using length_padStart_digits[OF w dn] length_padStart_digits[OF w dm] by simp_all
    consider (hi) "n div 10 < m div 10" | (lo) "n div 10 = m div 10" "n mod 10 < m mod 10"
      using Suc.prems(2) by (metis div_le_mono less_imp_le_nat linorder_neqE_nat
          mod_less_divisor mult_div_mod_eq nat_add_left_cancel_less not_less zero_less_numeral)
    then show ?thesis
    proof cases
      case hi
      have "?pn < ?pm" using Suc.IH[OF w hi dm] .
      then have "(?pn, ?pm) \<in> lexord {(u, v). u < v}" by (simp add: list_less_def)
      then have "(?pn @ [digit_char (n mod 10)], ?pm @ [digit_char (m mod 10)])
                   \<in> lexord {(u, v). u < v}"
        by (rule lexord_sufI) (simp add: len)
      then show ?thesis by (simp add: sn sm list_less_def)
    next
      case lo
      have "digit_char (n mod 10) < digit_char (m mod 10)"
        using lo(2) by (rule digit_char_mono) simp
      then have "(?pn @ digit_char (n mod 10) # [], ?pn @ digit_char (m mod 10) # [])
                   \<in> lexord {(u, v). u < v}"
        by (intro lexord_append_left_rightI) simp
      then show ?thesis using lo(1) by (simp add: sn sm list_less_def)
    qed
  qed
qed

lemma chunkFileName_mono:
  assumes "0 \<le> i" "i < j" "j < 1000000"
  shows "chunkFileName i < chunkFileName j"
proof -
  have "nat i < nat j" "nat j < 10 ^ 6" using assms by simp_all
  then have "padStart 6 (CHR ''0'') (digits (nat i)) < padStart 6 (CHR ''0'') (digits (nat j))"
    using padStart_digits_mono[of 6 "nat i" "nat j"] by simp
  then have "(padStart 6 (CHR ''0'') (digits (nat i)), padStart 6 (CHR ''0'') (digits (nat j)))
               \<in> lexord {(u, v). u < v}"
    by (simp add: list_less_def)
  then have "(''chunk_'' @ padStart 6 (CHR ''0'') (digits (nat i)),
              ''chunk_'' @ padStart 6 (CHR ''0'') (digits (nat j))) \<in> lexord {(u, v). u < v}"
    by (rule lexord_append_leftI)
  then show ?thesis using assms by (simp add: chunkFileName_def toString_def list_less_def)
qed

end
